theory Spec2Isabelle
  imports Main "HOL-Library.Word" "HOL-Library.AList"
begin

unbundle bit_operations_syntax

section \<open>Basic types of the yamux package\<close>

text \<open>
  The multiplexer lives in package \<open>yamux\<close> (the second half of
  \<open>internal/yamux/yamux_test.go\<close>). Bytes are \<open>8 word\<close>, stream IDs and frame
  lengths are Go \<open>uint32\<close>, that is \<open>32 word\<close>: addition wraps modulo \<open>2 ^ 32\<close>.
  Go's \<open>int\<close> (slice lengths, the cursors of the buffer) is modelled by \<open>nat\<close>: these
  values start at 0, only grow by lengths of slices that exist in memory, and never
  come near \<open>2 ^ 63\<close>.
\<close>

type_synonym byte = "8 word"
type_synonym uint32 = "32 word"

text \<open>
  Errors. \<open>io.EOF\<close>, \<open>io.ErrUnexpectedEOF\<close> and \<open>net.ErrClosed\<close> are the sentinel
  values of the Go library; every other error of the package is built by
  \<open>fmt.Errorf\<close> from a fixed message.
\<close>

datatype error = EOF | ErrUnexpectedEOF | ErrClosed | Errorf string

text \<open>
  What a call does: it returns (with its Go results and the new state), it blocks on a
  channel that nobody fills in the current state, it panics (a slice expression out of
  range, \<open>close\<close> of a closed channel), or it loops forever.
\<close>

datatype ('a, 's) outcome = Return 'a 's | Blocks 's | Panics | Diverges

subsection \<open>Protocol constants\<close>

text \<open>
  The constants are declared in one \<open>const\<close> block:
  \<^verbatim>\<open>const ( headerSize = 10; typeData byte = iota; typeSYN; typeFIN; typeACK; typePING; typePONG; ... )\<close>.
  In Go \<open>iota\<close> is the index of the constant specification inside its block.
  \<open>headerSize\<close> is specification 0, so \<open>iota\<close> is 1 at \<open>typeData\<close> and the
  message types are 1 to 6.
\<close>

definition headerSize :: nat where "headerSize = 10"

definition typeData :: byte where "typeData = 1"
definition typeSYN :: byte where "typeSYN = 2"
definition typeFIN :: byte where "typeFIN = 3"
definition typeACK :: byte where "typeACK = 4"
definition typePING :: byte where "typePING = 5"
definition typePONG :: byte where "typePONG = 6"

subsection \<open>Slices and \<open>encoding/binary\<close>\<close>

text \<open>\<open>make([]byte, n)\<close>: \<open>n\<close> zero bytes.\<close>

definition make_bytes :: "nat \<Rightarrow> byte list" where
  "make_bytes n = replicate n 0"

text \<open>
  The builtin \<open>copy(dst, src)\<close> copies \<open>min(len(dst), len(src))\<close> elements and
  returns that number; the second component is \<open>dst\<close> afterwards.
\<close>

definition copy :: "byte list \<Rightarrow> byte list \<Rightarrow> nat \<times> byte list" where
  "copy dst src = (let n = min (length dst) (length src) in (n, take n src @ drop n dst))"

text \<open>
  \<open>binary.BigEndian.PutUint32(b[off:off+4], v)\<close> stores \<open>byte(v >> 24)\<close>,
  \<open>byte(v >> 16)\<close>, \<open>byte(v >> 8)\<close>, \<open>byte(v)\<close>; \<open>binary.BigEndian.Uint32\<close>
  reads them back.
\<close>

definition PutUint32 :: "byte list \<Rightarrow> nat \<Rightarrow> uint32 \<Rightarrow> byte list" where
  "PutUint32 b off v =
     b[off := ucast (drop_bit 24 v), off + 1 := ucast (drop_bit 16 v),
       off + 2 := ucast (drop_bit 8 v), off + 3 := ucast v]"

definition Uint32 :: "byte list \<Rightarrow> uint32" where
  "Uint32 b = ucast (b ! 3) OR push_bit 8 (ucast (b ! 2)) OR push_bit 16 (ucast (b ! 1))
              OR push_bit 24 (ucast (b ! 0))"

section \<open>The growable byte buffer\<close>

text \<open>
  \<open>type buffer struct { buf []byte; rd, wr int; closed bool; mutex; signal chan struct{} }\<close>.
  The slice \<open>b.buf\<close> is kept as its backing array \<open>buf\<close> (so \<open>cap(b.buf)\<close> is
  \<open>length (buf b)\<close>) together with its length \<open>buf_len\<close>. \<open>signal\<close> is a channel
  of capacity one: the field says whether a token is queued. The mutex protects each
  method body, which therefore is one atomic step here.
\<close>

record buffer =
  buf :: "byte list"
  buf_len :: nat
  rd :: nat
  wr :: nat
  closed :: bool
  signal :: bool

definition newBuffer :: buffer where
  "newBuffer = \<lparr>buf = make_bytes 64, buf_len = 0, rd = 0, wr = 0, closed = False, signal = False\<rparr>"

text \<open>
  \<open>buffer.Read(p)\<close>, with \<open>lp = len(p)\<close>; the result is \<open>(n, err)\<close> and the \<open>n\<close> bytes
  stored in \<open>p\<close>. While the buffer is empty and open the caller waits on \<open>signal\<close>: a
  queued token is consumed, the test is repeated, and the second wait blocks. The slice
  expression \<open>b.buf[b.rd:b.wr]\<close> panics when \<open>wr\<close> exceeds the capacity.
\<close>

definition buffer_Read :: "buffer \<Rightarrow> nat \<Rightarrow> (nat \<times> error option \<times> byte list, buffer) outcome" where
  "buffer_Read b lp =
     (if wr b \<le> rd b then
        (if buffer.closed b then Return (0, Some EOF, []) b
         else Blocks (b\<lparr>signal := False\<rparr>))
      else if length (buf b) < wr b then Panics
      else
        let n = min lp (wr b - rd b);
            data = take n (drop (rd b) (buf b));
            rd' = rd b + n
        in Return (n, None, data)
             (if rd' = wr b then b\<lparr>rd := 0, wr := 0\<rparr> else b\<lparr>rd := rd'\<rparr>))"

text \<open>
  The growth loop of \<open>buffer.Write\<close>:
  \<open>for newSize < b.wr+len(p) { newSize *= 2 }\<close>. It does not end when \<open>newSize\<close>
  is 0, so the function is partial.
\<close>

partial_function (option) double_until :: "nat \<Rightarrow> nat \<Rightarrow> nat option" where
  "double_until newSize need =
     (if newSize < need then double_until (newSize * 2) need else Some newSize)"

declare double_until.simps [code]

text \<open>
  \<open>buffer.Write(p)\<close>. Empty input returns \<open>(0, nil)\<close> before the lock is taken; a
  closed buffer refuses the bytes. \<open>b.buf[:b.wr]\<close> panics when \<open>wr\<close> exceeds the
  capacity and \<open>b.buf[b.wr:]\<close> when it exceeds the length.
\<close>

definition grow :: "buffer \<Rightarrow> nat \<Rightarrow> (unit, buffer) outcome" where
  "grow b need =
     (case double_until (length (buf b) * 2) need of
        None \<Rightarrow> Diverges
      | Some newSize \<Rightarrow>
          if length (buf b) < wr b then Panics
          else Return () (b\<lparr>buf := snd (copy (make_bytes newSize) (take (wr b) (buf b))),
                            buf_len := newSize\<rparr>))"

definition put :: "buffer \<Rightarrow> byte list \<Rightarrow> (nat \<times> error option, buffer) outcome" where
  "put b p =
     (if buf_len b < wr b then Panics
      else
        let (n, dst) = copy (take (buf_len b - wr b) (drop (wr b) (buf b))) p
        in Return (n, None)
             (b\<lparr>buf := take (wr b) (buf b) @ dst @ drop (buf_len b) (buf b),
                wr := wr b + n, signal := True\<rparr>))"

definition buffer_Write :: "buffer \<Rightarrow> byte list \<Rightarrow> (nat \<times> error option, buffer) outcome" where
  "buffer_Write b p =
     (if length p = 0 then Return (0, None) b
      else if buffer.closed b then Return (0, Some (Errorf ''buffer closed'')) b
      else if buf_len b < wr b + length p then
        (case grow b (wr b + length p) of
           Return u b' \<Rightarrow> put b' p
         | Blocks b' \<Rightarrow> Blocks b'
         | Panics \<Rightarrow> Panics
         | Diverges \<Rightarrow> Diverges)
      else put b p)"

text \<open>\<open>buffer.Close()\<close>: idempotent; the first call wakes a waiting reader.\<close>

definition buffer_Close :: "buffer \<Rightarrow> error option \<times> buffer" where
  "buffer_Close b =
     (if buffer.closed b then (None, b)
      else (None, b\<lparr>buffer.closed := True, signal := True\<rparr>))"

text \<open>
  The bytes written and not yet read, and the invariant of the buffer: the cursors are
  ordered and inside the slice, and the slice has a backing array of positive capacity
  (64 at creation).
\<close>

definition unread :: "buffer \<Rightarrow> byte list" where
  "unread b = take (wr b - rd b) (drop (rd b) (buf b))"

definition buffer_inv :: "buffer \<Rightarrow> bool" where
  "buffer_inv b \<longleftrightarrow>
     rd b \<le> wr b \<and> wr b \<le> buf_len b \<and> buf_len b \<le> length (buf b) \<and> 0 < length (buf b)"

section \<open>The connection\<close>

text \<open>
  A session owns an \<open>io.ReadWriteCloser\<close>. The model has the shape of the
  \<open>mockConn\<close> of the package: \<open>readBuf\<close> holds the bytes the peer has sent and the
  session has not read yet, \<open>writeBuf\<close> the bytes written so far, \<open>readErr\<close> and
  \<open>writeErr\<close> an injected failure. Two fields go beyond \<open>mockConn\<close>, whose \<open>Close\<close>
  always returns \<open>nil\<close>: \<open>closeErr\<close> is what \<open>Close\<close> returns, and \<open>closeCalls\<close>
  counts the calls of \<open>Close\<close>.
\<close>

record Conn =
  readBuf :: "byte list"
  writeBuf :: "byte list"
  closed :: bool
  readErr :: "error option"
  writeErr :: "error option"
  closeErr :: "error option"
  closeCalls :: nat

definition newMockConn :: Conn where
  "newMockConn = \<lparr>readBuf = [], writeBuf = [], closed = False, readErr = None,
                   writeErr = None, closeErr = None, closeCalls = 0\<rparr>"

text \<open>
  \<open>io.ReadFull(conn, make([]byte, k))\<close> on such a connection: it calls \<open>Read\<close>
  until \<open>k\<close> bytes have arrived or \<open>Read\<close> fails. A closed connection gives
  \<open>net.ErrClosed\<close>, an injected error is passed on, an exhausted input gives \<open>io.EOF\<close>
  when nothing was read and \<open>io.ErrUnexpectedEOF\<close> after a partial read; the bytes
  read are consumed in every case.
\<close>

definition ReadFull :: "Conn \<Rightarrow> nat \<Rightarrow> (nat \<times> error option \<times> byte list) \<times> Conn" where
  "ReadFull c k =
     (if k = 0 then ((0, None, []), c)
      else if Conn.closed c then ((0, Some ErrClosed, []), c)
      else case readErr c of
        Some e \<Rightarrow> ((0, Some e, []), c)
      | None \<Rightarrow>
          let n = min k (length (Conn.readBuf c));
              c' = c\<lparr>Conn.readBuf := drop n (Conn.readBuf c)\<rparr>
          in if n = k then ((k, None, take k (Conn.readBuf c)), c')
             else if n = 0 then ((0, Some EOF, []), c')
             else ((n, Some ErrUnexpectedEOF, take n (Conn.readBuf c)), c'))"

definition Conn_Write :: "Conn \<Rightarrow> byte list \<Rightarrow> (nat \<times> error option) \<times> Conn" where
  "Conn_Write c b =
     (if Conn.closed c then ((0, Some ErrClosed), c)
      else case writeErr c of
        Some e \<Rightarrow> ((0, Some e), c)
      | None \<Rightarrow> ((length b, None), c\<lparr>writeBuf := writeBuf c @ b\<rparr>))"

definition Conn_Close :: "Conn \<Rightarrow> error option \<times> Conn" where
  "Conn_Close c = (closeErr c, c\<lparr>Conn.closed := True, closeCalls := closeCalls c + 1\<rparr>)"

section \<open>Streams and sessions\<close>

text \<open>
  \<open>type Stream struct { session *Session; id uint32; closed bool; readBuf *buffer }\<close>.
  The buffer belongs to its stream alone and is kept inside it; the back pointer to the
  session is not needed, as a stream is always used together with its session.
\<close>

record Stream =
  stream_id :: uint32
  closed :: bool
  readBuf :: buffer

definition newStream :: "uint32 \<Rightarrow> Stream" where
  "newStream i = \<lparr>stream_id = i, closed = False, readBuf = newBuffer\<rparr>"

text \<open>Durations are nanoseconds.\<close>

record Config =
  AcceptBacklog :: int
  EnableKeepAlive :: bool
  KeepAliveInterval :: int
  ConnectionWriteTimeout :: int
  StreamOpenTimeout :: int

definition NewConfig :: Config where
  "NewConfig = \<lparr>AcceptBacklog = 256, EnableKeepAlive = True,
                 KeepAliveInterval = 30 * 1000000000,
                 ConnectionWriteTimeout = 10 * 1000000000,
                 StreamOpenTimeout = 10 * 1000000000\<rparr>"

text \<open>
  The session. Streams are shared objects: the registry \<open>streams\<close>, the accept channel
  and the caller all hold \<open>*Stream\<close> pointers to the same object. \<open>heap\<close> is the store
  of the \<open>Stream\<close> objects created so far, a pointer is an index into it, and
  \<open>newStream\<close> allocates at the end. The registry \<open>map[uint32]*Stream\<close> is an
  association list with distinct keys. \<open>acceptCh\<close> (capacity \<open>AcceptBacklog\<close>) and
  \<open>writeCh\<close> (capacity 16) are the queued elements of the two buffered channels;
  \<open>readerShutdown\<close> and \<open>writerShutdown\<close> say whether the channel has been closed.
\<close>

record Session =
  conn :: Conn
  config :: Config
  heap :: "Stream list"
  streams :: "(uint32 \<times> nat) list"
  nextStreamID :: uint32
  acceptCh :: "nat list"
  isRemoteClient :: bool
  closed :: bool
  readerShutdown :: bool
  writeCh :: "byte list list"
  writerShutdown :: bool

text \<open>
  \<open>Server\<close> and \<open>Client\<close>. \<open>make(chan *Stream, n)\<close> panics for a negative \<open>n\<close>.
  The three goroutines started here are the step functions \<open>reader_step\<close>,
  \<open>writer_step\<close> and \<open>keepalive_step\<close> below.
\<close>

definition Server :: "Conn \<Rightarrow> Config option \<Rightarrow> (error option, Session) outcome" where
  "Server c cfg =
     (let config = (case cfg of None \<Rightarrow> NewConfig | Some g \<Rightarrow> g)
      in if AcceptBacklog config < 0 then Panics
         else Return None
           \<lparr>conn = c, config = config, heap = [], streams = [], nextStreamID = 1,
            acceptCh = [], isRemoteClient = True, closed = False, readerShutdown = False,
            writeCh = [], writerShutdown = False\<rparr>)"

definition Client :: "Conn \<Rightarrow> Config option \<Rightarrow> (error option, Session) outcome" where
  "Client c cfg =
     (let config = (case cfg of None \<Rightarrow> NewConfig | Some g \<Rightarrow> g)
      in if AcceptBacklog config < 0 then Panics
         else Return None
           \<lparr>conn = c, config = config, heap = [], streams = [], nextStreamID = 2,
            acceptCh = [], isRemoteClient = False, closed = False, readerShutdown = False,
            writeCh = [], writerShutdown = False\<rparr>)"

definition IsClosed :: "Session \<Rightarrow> bool" where
  "IsClosed s = Session.closed s"

text \<open>
  \<open>Session.write\<close>: the frame is sent on \<open>writeCh\<close>, or the call gives up after
  \<open>ConnectionWriteTimeout\<close>. Every operation is one atomic step of an interleaving
  of the goroutines, so no other goroutine runs while this one waits: with room in the
  channel the send happens at once (the timeout is positive and has not fired), and with
  a full channel the timeout branch is taken.
\<close>

definition Session_write :: "Session \<Rightarrow> byte list \<Rightarrow> error option \<times> Session" where
  "Session_write s data =
     (if IsClosed s then (Some (Errorf ''session closed''), s)
      else if length (writeCh s) < 16 then (None, s\<lparr>writeCh := writeCh s @ [data]\<rparr>)
      else (Some (Errorf ''write timeout''), s))"

text \<open>
  \<open>Session.OpenStream\<close>; the stream returned is the pointer, \<open>None\<close> is \<open>nil\<close>.
  The method has two parts: \<open>OpenStream_alloc\<close> is the critical section under
  \<open>streamLock\<close>, which takes the ID and registers the stream, and \<open>OpenStream_send\<close>
  is what follows the unlock, the SYN frame and the result. Other goroutines can run
  between the two.
\<close>

definition OpenStream_alloc :: "Session \<Rightarrow> (uint32 \<times> nat) \<times> Session" where
  "OpenStream_alloc s =
     (let streamID = nextStreamID s;
          stream = length (heap s)
      in ((streamID, stream),
          s\<lparr>nextStreamID := nextStreamID s + 2,
            heap := heap s @ [newStream streamID],
            streams := AList.update streamID stream (streams s)\<rparr>))"

definition OpenStream_send :: "Session \<Rightarrow> uint32 \<Rightarrow> nat \<Rightarrow> (nat option \<times> error option) \<times> Session" where
  "OpenStream_send s streamID stream =
     (let header = PutUint32 (PutUint32 ((make_bytes headerSize)[0 := typeSYN, 1 := 0])
                               2 streamID) 6 0
      in case Session_write s header of
           (Some err, s') \<Rightarrow> ((None, Some err), s')
         | (None, s') \<Rightarrow> ((Some stream, None), s'))"

definition OpenStream :: "Session \<Rightarrow> (nat option \<times> error option) \<times> Session" where
  "OpenStream s =
     (if IsClosed s then ((None, Some (Errorf ''session closed'')), s)
      else
        let ((streamID, stream), s1) = OpenStream_alloc s
        in OpenStream_send s1 streamID stream)"

text \<open>
  \<open>Session.AcceptStream\<close>: a queued stream is received at once; with an empty channel
  the wait ends in the timeout branch.
\<close>

definition AcceptStream :: "Session \<Rightarrow> (nat option \<times> error option) \<times> Session" where
  "AcceptStream s =
     (if IsClosed s then ((None, Some (Errorf ''session closed'')), s)
      else case acceptCh s of
        stream # rest \<Rightarrow> ((Some stream, None), s\<lparr>acceptCh := rest\<rparr>)
      | [] \<Rightarrow> ((None, Some (Errorf ''timeout waiting for new stream'')), s))"

text \<open>
  \<open>Session.Close\<close>. The loop over the registry sets \<open>closed\<close> and closes the buffer of
  each registered stream (\<open>readBuf\<close> is never \<open>nil\<close>: \<open>newStream\<close> always
  creates it); the order of a Go map iteration is arbitrary, and the loop body for one
  stream does not depend on the others. \<open>close\<close> of a channel that is already closed
  panics.
\<close>

definition close_stream :: "nat \<Rightarrow> Stream list \<Rightarrow> Stream list" where
  "close_stream r h =
     h[r := (h ! r)\<lparr>Stream.closed := True,
                     Stream.readBuf := snd (buffer_Close (Stream.readBuf (h ! r)))\<rparr>]"

definition Session_Close :: "Session \<Rightarrow> (error option, Session) outcome" where
  "Session_Close s =
     (if Session.closed s then Return None s
      else
        let s1 = s\<lparr>Session.closed := True\<rparr>;
            s2 = s1\<lparr>heap := fold close_stream (map snd (streams s1)) (heap s1)\<rparr>
        in if readerShutdown s2 then Panics
           else if writerShutdown s2 then Panics
           else
             let (err, c) = Conn_Close (conn s2)
             in Return err (s2\<lparr>readerShutdown := True, writerShutdown := True, conn := c\<rparr>))"

text \<open>Sequencing of calls that may panic or block.\<close>

fun and_then :: "('a, 's) outcome \<Rightarrow> ('a \<Rightarrow> 's \<Rightarrow> ('b, 's) outcome) \<Rightarrow> ('b, 's) outcome" where
  "and_then (Return a s) f = f a s"
| "and_then (Blocks s) f = Blocks s"
| "and_then Panics f = Panics"
| "and_then Diverges f = Diverges"

subsection \<open>The handlers of the reader loop\<close>

text \<open>
  \<open>Session.handleData\<close>. For an unknown stream the payload is read and thrown away,
  the result of \<open>io.ReadFull\<close> is not looked at. For a registered stream a failed read
  closes the session; the result of \<open>stream.readBuf.Write\<close> is not looked at either,
  so a closed buffer drops the payload.
\<close>

definition handleData :: "Session \<Rightarrow> uint32 \<Rightarrow> byte \<Rightarrow> uint32 \<Rightarrow> (unit, Session) outcome" where
  "handleData s streamID flags len =
     (case map_of (streams s) streamID of
        None \<Rightarrow>
          if 0 < len then Return () (s\<lparr>conn := snd (ReadFull (conn s) (unat len))\<rparr>)
          else Return () s
      | Some stream \<Rightarrow>
          if 0 < len then
            (case ReadFull (conn s) (unat len) of
               ((n, Some err, data), c) \<Rightarrow>
                 and_then (Session_Close (s\<lparr>conn := c\<rparr>)) (\<lambda>e s'. Return () s')
             | ((n, None, data), c) \<Rightarrow>
                 (case buffer_Write (Stream.readBuf (heap s ! stream)) data of
                    Return r b \<Rightarrow>
                      Return () (s\<lparr>conn := c,
                                   heap := (heap s)[stream := (heap s ! stream)\<lparr>Stream.readBuf := b\<rparr>]\<rparr>)
                  | Blocks b \<Rightarrow> Blocks (s\<lparr>conn := c\<rparr>)
                  | Panics \<Rightarrow> Panics
                  | Diverges \<Rightarrow> Diverges))
          else Return () s)"

text \<open>
  \<open>Session.handleSYN\<close>. The \<open>select\<close> with a \<open>default\<close> branch sends on
  \<open>acceptCh\<close> when the channel has room and deletes the registration otherwise
  (\<open>AcceptStream\<close> is one atomic step, so no receiver is waiting on the channel
  while the handler runs).
\<close>

definition handleSYN :: "Session \<Rightarrow> uint32 \<Rightarrow> Session" where
  "handleSYN s streamID =
     (case map_of (streams s) streamID of
        Some old \<Rightarrow> s
      | None \<Rightarrow>
          let stream = length (heap s);
              s1 = s\<lparr>heap := heap s @ [newStream streamID],
                     streams := AList.update streamID stream (streams s)\<rparr>;
              header = PutUint32 (PutUint32 ((make_bytes headerSize)[0 := typeACK, 1 := 0])
                                   2 streamID) 6 0;
              s2 = snd (Session_write s1 header)
          in if int (length (acceptCh s2)) < AcceptBacklog (config s2)
             then s2\<lparr>acceptCh := acceptCh s2 @ [stream]\<rparr>
             else s2\<lparr>streams := AList.delete streamID (streams s2)\<rparr>)"

definition handleFIN :: "Session \<Rightarrow> uint32 \<Rightarrow> Session" where
  "handleFIN s streamID =
     (case map_of (streams s) streamID of
        None \<Rightarrow> s
      | Some stream \<Rightarrow> s\<lparr>heap := close_stream stream (heap s)\<rparr>)"

definition handleACK :: "Session \<Rightarrow> uint32 \<Rightarrow> Session" where
  "handleACK s streamID = s"

definition handlePING :: "Session \<Rightarrow> byte \<Rightarrow> Session" where
  "handlePING s flags =
     snd (Session_write s ((make_bytes headerSize)[0 := typePONG, 1 := flags, 2 := 0, 6 := 0]))"

subsection \<open>The three loops, one iteration each\<close>

datatype loop = Continue | Exit

text \<open>One iteration of \<open>Session.reader\<close>.\<close>

definition reader_step :: "Session \<Rightarrow> (loop, Session) outcome" where
  "reader_step s =
     (if readerShutdown s then Return Exit s
      else case ReadFull (conn s) headerSize of
        ((n, Some err, header), c) \<Rightarrow>
          and_then (Session_Close (s\<lparr>conn := c\<rparr>)) (\<lambda>e s'. Return Exit s')
      | ((n, None, header), c) \<Rightarrow>
          let s1 = s\<lparr>conn := c\<rparr>;
              msgType = header ! 0;
              flags = header ! 1;
              streamID = Uint32 (take 4 (drop 2 header));
              len = Uint32 (take 4 (drop 6 header))
          in if msgType = typeData then
               and_then (handleData s1 streamID flags len) (\<lambda>u s'. Return Continue s')
             else if msgType = typeSYN then Return Continue (handleSYN s1 streamID)
             else if msgType = typeFIN then Return Continue (handleFIN s1 streamID)
             else if msgType = typeACK then Return Continue (handleACK s1 streamID)
             else if msgType = typePING then Return Continue (handlePING s1 flags)
             else if msgType = typePONG then Return Continue s1
             else Return Continue s1)"

text \<open>
  One iteration of \<open>Session.writer\<close>: it waits for a frame or for the shutdown. When
  both are ready Go picks either branch; the shutdown is taken here.
\<close>

definition writer_step :: "Session \<Rightarrow> (loop, Session) outcome" where
  "writer_step s =
     (if writerShutdown s then Return Exit s
      else case writeCh s of
        [] \<Rightarrow> Blocks s
      | data # rest \<Rightarrow>
          (case Conn_Write (conn s) data of
             ((n, None), c) \<Rightarrow> Return Continue (s\<lparr>writeCh := rest, conn := c\<rparr>)
           | ((n, Some err), c) \<Rightarrow>
               and_then (Session_Close (s\<lparr>writeCh := rest, conn := c\<rparr>))
                 (\<lambda>e s'. Return Exit s')))"

text \<open>One iteration of \<open>Session.keepalive\<close>, at the moment the interval has passed.\<close>

definition keepalive_step :: "Session \<Rightarrow> (loop, Session) outcome" where
  "keepalive_step s =
     (if readerShutdown s then Return Exit s
      else
        let header = PutUint32 (PutUint32 ((make_bytes headerSize)[0 := typePING, 1 := 0])
                                  2 0) 6 0
        in case Session_write s header of
             (Some err, s') \<Rightarrow> and_then (Session_Close s') (\<lambda>e s''. Return Exit s'')
           | (None, s') \<Rightarrow> Return Continue s')"

subsection \<open>The methods of a stream\<close>

text \<open>
  Each method takes the session and the \<open>*Stream\<close> pointer. \<open>Stream.Read\<close> returns
  \<open>io.EOF\<close> at once when the stream is marked closed, and asks the buffer otherwise.
\<close>

definition Stream_Read :: "Session \<Rightarrow> nat \<Rightarrow> nat \<Rightarrow> (nat \<times> error option \<times> byte list, Session) outcome" where
  "Stream_Read s stream lp =
     (if Stream.closed (heap s ! stream) then Return (0, Some EOF, []) s
      else case buffer_Read (Stream.readBuf (heap s ! stream)) lp of
        Return r b \<Rightarrow>
          Return r (s\<lparr>heap := (heap s)[stream := (heap s ! stream)\<lparr>Stream.readBuf := b\<rparr>]\<rparr>)
      | Blocks b \<Rightarrow>
          Blocks (s\<lparr>heap := (heap s)[stream := (heap s ! stream)\<lparr>Stream.readBuf := b\<rparr>]\<rparr>)
      | Panics \<Rightarrow> Panics
      | Diverges \<Rightarrow> Diverges)"

text \<open>\<open>Stream.Write\<close>; \<open>uint32(len(p))\<close> keeps the low 32 bits of the length.\<close>

definition Stream_Write :: "Session \<Rightarrow> nat \<Rightarrow> byte list \<Rightarrow> (nat \<times> error option) \<times> Session" where
  "Stream_Write s stream p =
     (if Stream.closed (heap s ! stream) then ((0, Some (Errorf ''stream closed'')), s)
      else if length p = 0 then ((0, None), s)
      else
        let header = PutUint32 (PutUint32 ((make_bytes headerSize)[0 := typeData, 1 := 0])
                                  2 (stream_id (heap s ! stream))) 6 (of_nat (length p));
            data = header @ p
        in case Session_write s data of
             (Some err, s') \<Rightarrow> ((0, Some err), s')
           | (None, s') \<Rightarrow> ((length p, None), s'))"

definition Stream_Close :: "Session \<Rightarrow> nat \<Rightarrow> error option \<times> Session" where
  "Stream_Close s stream =
     (if Stream.closed (heap s ! stream) then (None, s)
      else
        let s1 = s\<lparr>heap := (heap s)[stream := (heap s ! stream)\<lparr>Stream.closed := True\<rparr>]\<rparr>;
            header = PutUint32 (PutUint32 ((make_bytes headerSize)[0 := typeFIN, 1 := 0])
                                  2 (stream_id (heap s ! stream))) 6 0
        in Session_write s1 header)"

section \<open>Auxiliary notions for the properties\<close>

text \<open>
  \<open>after c P\<close>: the call \<open>c\<close> neither panics nor loops forever, and the state it
  leaves (on return, or when it blocks) satisfies \<open>P\<close>.
\<close>

fun after :: "('a, 's) outcome \<Rightarrow> ('s \<Rightarrow> bool) \<Rightarrow> bool" where
  "after (Return a s) P = P s"
| "after (Blocks s) P = P s"
| "after Panics P = False"
| "after Diverges P = False"


text \<open>
  The wire format in numbers. \<open>be32\<close> reads four bytes as a big-endian number;
  \<open>wire_frame t fl sid len payload f\<close> says that the byte sequence \<open>f\<close> is a
  10-byte header with type \<open>t\<close> at offset 0, flags \<open>fl\<close> at offset 1, the number
  \<open>sid\<close> at offsets 2-5 and the number \<open>len\<close> at offsets 6-9, followed by exactly
  \<open>payload\<close>.
\<close>

definition be32 :: "byte list \<Rightarrow> nat" where
  "be32 bs = unat (bs ! 0) * 2 ^ 24 + unat (bs ! 1) * 2 ^ 16 + unat (bs ! 2) * 2 ^ 8
             + unat (bs ! 3)"

definition wire_frame :: "byte \<Rightarrow> byte \<Rightarrow> nat \<Rightarrow> nat \<Rightarrow> byte list \<Rightarrow> byte list \<Rightarrow> bool" where
  "wire_frame t fl sid len payload f \<longleftrightarrow>
     length f = 10 + length payload \<and> f ! 0 = t \<and> f ! 1 = fl
     \<and> be32 (take 4 (drop 2 f)) = sid \<and> be32 (take 4 (drop 6 f)) = len
     \<and> drop 10 f = payload"

text \<open>\<open>Session.write\<close> succeeds exactly in these states.\<close>

definition can_enqueue :: "Session \<Rightarrow> bool" where
  "can_enqueue s \<longleftrightarrow> \<not> IsClosed s \<and> length (writeCh s) < 16"

text \<open>
  Well-formed sessions: the keys of the registry are distinct, every pointer in the
  registry and in the accept channel points to an allocated stream, every buffer
  satisfies its invariant, and the shutdown channels are closed only in a closed
  session.
\<close>

definition session_inv :: "Session \<Rightarrow> bool" where
  "session_inv s \<longleftrightarrow>
     distinct (map fst (streams s))
     \<and> (\<forall>r \<in> snd ` set (streams s). r < length (heap s))
     \<and> (\<forall>r \<in> set (acceptCh s). r < length (heap s))
     \<and> (\<forall>st \<in> set (heap s). buffer_inv (Stream.readBuf st))
     \<and> (readerShutdown s \<longrightarrow> Session.closed s)
     \<and> (writerShutdown s \<longrightarrow> Session.closed s)"

text \<open>
  \<open>n\<close> calls of \<open>OpenStream\<close> in a row, and the IDs of the streams these calls
  create.
\<close>

fun OpenStreams :: "nat \<Rightarrow> Session \<Rightarrow> Session" where
  "OpenStreams 0 s = s"
| "OpenStreams (Suc n) s = OpenStreams n (snd (OpenStream s))"

definition opened_ids :: "nat \<Rightarrow> Session \<Rightarrow> uint32 list" where
  "opened_ids n s = map stream_id (drop (length (heap s)) (heap (OpenStreams n s)))"

text \<open>At most \<open>n\<close> iterations of the reader loop, stopping when the loop exits.\<close>

fun reader_steps :: "nat \<Rightarrow> Session \<Rightarrow> (loop, Session) outcome" where
  "reader_steps 0 s = Return Continue s"
| "reader_steps (Suc n) s =
     (case reader_step s of
        Return l s' \<Rightarrow> (if l = Exit then Return Exit s' else reader_steps n s')
      | Blocks s' \<Rightarrow> Blocks s'
      | Panics \<Rightarrow> Panics
      | Diverges \<Rightarrow> Diverges)"

text \<open>
  Concrete sessions: the state a call leaves; a fresh client and a fresh server on a
  connection whose peer has sent \<open>input\<close>.
\<close>

fun state_of :: "('a, 's) outcome \<Rightarrow> 's option" where
  "state_of (Return a s) = Some s"
| "state_of (Blocks s) = Some s"
| "state_of Panics = None"
| "state_of Diverges = None"

definition client_on :: "byte list \<Rightarrow> Session" where
  "client_on input = the (state_of (Client (newMockConn\<lparr>Conn.readBuf := input\<rparr>) None))"

definition server_on :: "byte list \<Rightarrow> Session" where
  "server_on input = the (state_of (Server (newMockConn\<lparr>Conn.readBuf := input\<rparr>) None))"

text \<open>
  \<open>createHeader\<close>, the helper of the package's tests: the header built by the same
  statements as in the methods above.
\<close>

definition createHeader :: "uint32 \<Rightarrow> byte \<Rightarrow> byte \<Rightarrow> uint32 \<Rightarrow> byte list" where
  "createHeader streamID msgType flags len =
     PutUint32 (PutUint32 ((make_bytes headerSize)[0 := msgType, 1 := flags]) 2 streamID) 6 len"

text \<open>
  \<open>example_session\<close>: a fresh client that has opened one stream (ID 2, pointer 0);
  \<open>closed_session\<close>: the same session after \<open>Close\<close>.
\<close>

definition example_session :: Session where
  "example_session = snd (OpenStream (client_on []))"

definition closed_session :: Session where
  "closed_session = the (state_of (Session_Close example_session))"

text \<open>
  \<open>pending_session\<close>: the example session after a SYN for stream 1 has arrived;
  \<open>full_session\<close>: a fresh client after 16 calls of \<open>OpenStream\<close> with no
  iteration of the writer loop in between, so that \<open>writeCh\<close> is full.
\<close>

definition pending_session :: Session where
  "pending_session = handleSYN example_session 1"

definition full_session :: Session where
  "full_session = OpenStreams 16 (client_on [])"

text \<open>What \<open>Session.Close\<close> and \<open>handleFIN\<close> make of a stream.\<close>

definition closed_stream :: "Stream \<Rightarrow> Stream" where
  "closed_stream st = st\<lparr>Stream.closed := True,
                         Stream.readBuf := snd (buffer_Close (Stream.readBuf st))\<rparr>"

text \<open>
  Input of a peer that opens stream 1, sends the four bytes \<open>ping\<close> on it and
  closes it, and input where the FIN frame comes before the DATA frame; the sessions a
  fresh server is in after it has read these frames.
\<close>

definition wire_data_fin :: "byte list" where
  "wire_data_fin = createHeader 1 typeSYN 0 0
                   @ createHeader 1 typeData 0 4 @ [112, 105, 110, 103]
                   @ createHeader 1 typeFIN 0 0"

definition wire_fin_data :: "byte list" where
  "wire_fin_data = createHeader 1 typeSYN 0 0
                   @ createHeader 1 typeFIN 0 0
                   @ createHeader 1 typeData 0 4 @ [112, 105, 110, 103]"

definition after_syn :: Session where
  "after_syn = the (state_of (reader_steps 1 (server_on wire_data_fin)))"

definition after_data_fin :: Session where
  "after_data_fin = the (state_of (reader_steps 3 (server_on wire_data_fin)))"

definition after_fin :: Session where
  "after_fin = the (state_of (reader_steps 2 (server_on wire_fin_data)))"

definition after_fin_data :: Session where
  "after_fin_data = the (state_of (reader_step after_fin))"

text \<open>
  \<open>no_backlog_session\<close>: a client created with \<open>AcceptBacklog = 0\<close> that has opened
  one stream.
\<close>

definition no_backlog_session :: Session where
  "no_backlog_session =
     snd (OpenStream (the (state_of (Client newMockConn (Some (NewConfig\<lparr>AcceptBacklog := 0\<rparr>))))))"

section \<open>Properties of the buffer\<close>


lemma double_until_Some:
  "0 < c \<Longrightarrow> \<exists>k. double_until c need = Some (c * 2 ^ k) \<and> need \<le> c * 2 ^ k \<and> (k = 0 \<or> c * 2 ^ (k - 1) < need)"
proof (induction "need - c" arbitrary: c rule: less_induct)
  case less
  show ?case
  proof (cases "c < need")
    case False
    then have "double_until c need = Some (c * 2 ^ 0)"
      by (subst double_until.simps) simp
    with False show ?thesis by (intro exI[of _ 0]) simp
  next
    case True
    have "need - c * 2 < need - c" using True less.prems by arith
    moreover have "0 < c * 2" using less.prems by simp
    ultimately obtain k where k: "double_until (c * 2) need = Some (c * 2 * 2 ^ k)"
      "need \<le> c * 2 * 2 ^ k" "k = 0 \<or> c * 2 * 2 ^ (k - 1) < need"
      using less.hyps[of "c * 2"] by blast
    have "double_until c need = Some (c * 2 ^ Suc k)"
      using True k(1) by (subst double_until.simps) (simp add: mult.assoc)
    moreover have "need \<le> c * 2 ^ Suc k" using k(2) by (simp add: mult.assoc)
    moreover have "c * 2 ^ (Suc k - 1) < need"
    proof (cases k)
      case 0 then show ?thesis using True by simp
    next
      case (Suc j) then show ?thesis using k(3) by (simp add: mult.assoc)
    qed
    ultimately show ?thesis by (intro exI[of _ "Suc k"]) simp
  qed
qed

lemma copy_fits:
  "length src \<le> length dst \<Longrightarrow> copy dst src = (length src, src @ drop (length src) dst)"
  by (simp add: copy_def Let_def min_def)

lemma put_ok:
  assumes "wr b + length p \<le> buf_len b" "buf_len b \<le> length (buf b)" "rd b \<le> wr b"
  shows "\<exists>b'. put b p = Return (length p, None) b' \<and> rd b' = rd b \<and> wr b' = wr b + length p
          \<and> buf_len b' = buf_len b \<and> length (buf b') = length (buf b)
          \<and> buffer.closed b' = buffer.closed b
          \<and> unread b' = unread b @ p"
proof -
  define dst where "dst = take (buf_len b - wr b) (drop (wr b) (buf b))"
  define b' where "b' = b\<lparr>buf := take (wr b) (buf b) @ (p @ drop (length p) dst) @ drop (buf_len b) (buf b),
                wr := wr b + length p, signal := True\<rparr>"
  have ld: "length dst = buf_len b - wr b"
    using assms by (simp add: dst_def)
  then have cp: "copy dst p = (length p, p @ drop (length p) dst)"
    using assms by (intro copy_fits) simp
  have put: "put b p = Return (length p, None) b'"
    using assms cp by (simp add: put_def b'_def dst_def[symmetric])
  have len: "length (buf b') = length (buf b)"
    using assms ld by (simp add: b'_def)
  have lt: "length (take (wr b) (buf b)) = wr b"
    using assms by simp
  have "drop (rd b) (buf b') = drop (rd b) (take (wr b) (buf b)) @ (p @ drop (length p) dst) @ drop (buf_len b) (buf b)"
    using assms lt by (simp add: b'_def)
  moreover have "length (drop (rd b) (take (wr b) (buf b))) = wr b - rd b"
    using lt by simp
  ultimately have "take (wr b + length p - rd b) (drop (rd b) (buf b')) = drop (rd b) (take (wr b) (buf b)) @ p"
    using assms by simp
  then have "unread b' = unread b @ p"
    by (simp add: unread_def b'_def drop_take)
  with put len show ?thesis
    by (intro exI[of _ b']) (simp add: b'_def)
qed

lemma grow_ok:
  assumes "wr b \<le> buf_len b" "buf_len b \<le> length (buf b)" "0 < length (buf b)" "rd b \<le> wr b"
  shows "\<exists>b' k. grow b need = Return () b' \<and> rd b' = rd b \<and> wr b' = wr b
          \<and> buffer.closed b' = buffer.closed b
          \<and> buf_len b' = length (buf b') \<and> length (buf b') = length (buf b) * 2 ^ k
          \<and> 0 < k \<and> need \<le> buf_len b' \<and> (k = 1 \<or> length (buf b) * 2 ^ (k - 1) < need)
          \<and> unread b' = unread b"
proof -
  have "0 < length (buf b) * 2" using assms by simp
  from double_until_Some[OF this, of need]
  obtain j where j: "double_until (length (buf b) * 2) need = Some (length (buf b) * 2 * 2 ^ j)"
    "need \<le> length (buf b) * 2 * 2 ^ j" "j = 0 \<or> length (buf b) * 2 * 2 ^ (j - 1) < need"
    by blast
  define n where "n = length (buf b) * 2 * 2 ^ j"
  define b' where "b' = b\<lparr>buf := snd (copy (make_bytes n) (take (wr b) (buf b))), buf_len := n\<rparr>"
  have g: "grow b need = Return () b'"
    using j(1) assms by (simp add: grow_def b'_def n_def)
  have wn: "wr b \<le> n"
    using assms by (simp add: n_def) (metis le_trans one_le_numeral one_le_power mult_le_mono2 mult.right_neutral mult.assoc mult_2_right le_add1)
  have cp: "copy (make_bytes n) (take (wr b) (buf b)) = (wr b, take (wr b) (buf b) @ drop (wr b) (make_bytes n))"
    using copy_fits[of "take (wr b) (buf b)" "make_bytes n"] wn assms by (simp add: make_bytes_def)
  have bb: "buf b' = take (wr b) (buf b) @ drop (wr b) (make_bytes n)"
    by (simp add: b'_def cp)
  have len: "length (buf b') = n"
    using wn assms by (simp add: bb make_bytes_def)
  have un: "unread b' = unread b"
  proof -
    have "rd b' = rd b" "wr b' = wr b" by (simp_all add: b'_def)
    then have "unread b' = take (wr b - rd b) (drop (rd b) (take (wr b) (buf b) @ drop (wr b) (make_bytes n)))"
      by (simp add: unread_def bb)
    also have "\<dots> = take (wr b - rd b) (drop (rd b) (take (wr b) (buf b)))"
      using assms by simp
    also have "\<dots> = unread b"
      by (simp add: unread_def drop_take)
    finally show ?thesis .
  qed
  have k1: "Suc j = 1 \<or> length (buf b) * 2 ^ (Suc j - 1) < need"
    using j(3) by (cases j) (simp_all add: mult.assoc)
  show ?thesis
    using g len un j(2) k1
    by (intro exI[of _ b'] exI[of _ "Suc j"]) (simp add: b'_def n_def mult.assoc)
qed


lemma buffer_Write_ok:
  assumes "buffer_inv b" "\<not> buffer.closed b"
  shows "\<exists>b'. buffer_Write b p = Return (length p, None) b' \<and> buffer_inv b'
          \<and> unread b' = unread b @ p \<and> rd b' = rd b \<and> wr b' = wr b + length p
          \<and> \<not> buffer.closed b'
          \<and> (if buf_len b < wr b + length p
              then \<exists>k. 0 < k \<and> length (buf b') = length (buf b) * 2 ^ k
                     \<and> buf_len b' = length (buf b')
                     \<and> (k = 1 \<or> length (buf b) * 2 ^ (k - 1) < wr b + length p)
              else length (buf b') = length (buf b) \<and> buf_len b' = buf_len b)"
proof (cases "p = []")
  case True
  then show ?thesis using assms by (simp add: buffer_Write_def buffer_inv_def)
next
  case False
  show ?thesis
  proof (cases "buf_len b < wr b + length p")
    case grow: True
    have a: "wr b \<le> buf_len b" "buf_len b \<le> length (buf b)" "0 < length (buf b)" "rd b \<le> wr b"
      using assms by (simp_all add: buffer_inv_def)
    from grow_ok[OF a, of "wr b + length p"] obtain g k where g: "grow b (wr b + length p) = Return () g" "rd g = rd b" "wr g = wr b"
        "buffer.closed g = buffer.closed b" "buf_len g = length (buf g)"
        "length (buf g) = length (buf b) * 2 ^ k" "0 < k" "wr b + length p \<le> buf_len g"
        "k = 1 \<or> length (buf b) * 2 ^ (k - 1) < wr b + length p" "unread g = unread b"
      by (elim exE conjE) (rule that)
    have "wr g + length p \<le> buf_len g" "buf_len g \<le> length (buf g)" "rd g \<le> wr g"
      using g assms by (simp_all add: buffer_inv_def)
    from put_ok[OF this] obtain b' where b': "put g p = Return (length p, None) b'" "rd b' = rd g"
       "wr b' = wr g + length p" "buf_len b' = buf_len g" "length (buf b') = length (buf g)"
       "buffer.closed b' = buffer.closed g" "unread b' = unread g @ p"
      by blast
    have w: "buffer_Write b p = Return (length p, None) b'"
      using False assms grow g(1) b'(1) by (simp add: buffer_Write_def)
    have pos: "0 < length (buf b')"
      using b'(5) g(6) assms by (simp add: buffer_inv_def)
    have inv: "buffer_inv b'"
      using b' g assms pos by (simp add: buffer_inv_def)
    show ?thesis
      using w inv b' g grow assms by (intro exI[of _ b']) auto
  next
    case fits: False
    then have "wr b + length p \<le> buf_len b" by simp
    moreover have "buf_len b \<le> length (buf b)" "rd b \<le> wr b"
      using assms by (simp_all add: buffer_inv_def)
    ultimately obtain b' where b': "put b p = Return (length p, None) b'" "rd b' = rd b"
       "wr b' = wr b + length p" "buf_len b' = buf_len b" "length (buf b') = length (buf b)"
       "buffer.closed b' = buffer.closed b" "unread b' = unread b @ p"
      using put_ok[of b p] by blast
    have w: "buffer_Write b p = Return (length p, None) b'"
      using False assms fits b'(1) by (simp add: buffer_Write_def)
    have inv: "buffer_inv b'"
      using b' fits assms by (simp add: buffer_inv_def)
    show ?thesis
      using w inv b' fits assms by (intro exI[of _ b']) auto
  qed
qed

lemma buffer_Write_closed:
  "buffer.closed b \<Longrightarrow> p \<noteq> [] \<Longrightarrow> buffer_Write b p = Return (0, Some (Errorf ''buffer closed'')) b"
  by (simp add: buffer_Write_def)

lemma buffer_Write_inv: "buffer_inv b \<Longrightarrow> after (buffer_Write b p) buffer_inv"
proof (cases "buffer.closed b")
  case True
  assume "buffer_inv b"
  with True show ?thesis by (simp add: buffer_Write_def)
next
  case False
  assume "buffer_inv b"
  from buffer_Write_ok[OF this False, of p] show ?thesis by auto
qed

lemma length_unread: "buffer_inv b \<Longrightarrow> length (unread b) = wr b - rd b"
  by (auto simp add: unread_def buffer_inv_def)

lemma buffer_Read_data:
  assumes "buffer_inv b" "rd b < wr b"
  shows "\<exists>b'. buffer_Read b lp = Return (min lp (wr b - rd b), None, take lp (unread b)) b'
          \<and> buffer_inv b' \<and> unread b' = drop lp (unread b)
          \<and> buffer.closed b' = buffer.closed b \<and> buf b' = buf b \<and> buf_len b' = buf_len b
          \<and> (if wr b - rd b \<le> lp then rd b' = 0 \<and> wr b' = 0
              else rd b' = rd b + lp \<and> wr b' = wr b)"
proof (cases "wr b - rd b \<le> lp")
  case True
  then have "min lp (wr b - rd b) = wr b - rd b" by simp
  moreover have "take lp (unread b) = unread b"
    using True length_unread[OF assms(1)] by simp
  ultimately show ?thesis
    using assms True length_unread[OF assms(1)]
    by (simp add: buffer_Read_def buffer_inv_def Let_def) (simp add: unread_def)
next
  case False
  then have m: "min lp (wr b - rd b) = lp" by simp
  have lt: "rd b + lp < wr b" using False by arith
  have "take lp (unread b) = take lp (drop (rd b) (buf b))"
    using False by (simp add: unread_def min_def)
  moreover have "drop lp (unread b) = take (wr b - (rd b + lp)) (drop (rd b + lp) (buf b))"
    by (simp add: unread_def drop_take add.commute)
  ultimately show ?thesis
    using assms False m lt
    by (simp add: buffer_Read_def buffer_inv_def Let_def) (simp add: unread_def)
qed

lemma buffer_Read_empty:
  assumes "buffer_inv b" "rd b = wr b"
  shows "buffer_Read b lp = (if buffer.closed b then Return (0, Some EOF, []) b
                             else Blocks (b\<lparr>signal := False\<rparr>))"
  using assms by (simp add: buffer_Read_def)

lemma buffer_Read_inv: "buffer_inv b \<Longrightarrow> after (buffer_Read b lp) buffer_inv"
proof -
  assume inv: "buffer_inv b"
  show ?thesis
  proof (cases "rd b < wr b")
    case True
    from buffer_Read_data[OF inv True, of lp] show ?thesis by auto
  next
    case False
    then have "rd b = wr b" using inv by (simp add: buffer_inv_def)
    from buffer_Read_empty[OF inv this, of lp] inv show ?thesis
      by (simp add: buffer_inv_def)
  qed
qed

lemma buffer_Close_inv: "buffer_inv b \<Longrightarrow> buffer_inv (snd (buffer_Close b))"
  by (simp add: buffer_Close_def buffer_inv_def)

lemma newBuffer_inv: "buffer_inv newBuffer"
  by (simp add: newBuffer_def buffer_inv_def make_bytes_def)




section \<open>The frames on the wire\<close>


lemma make_bytes_10: "make_bytes headerSize = [0, 0, 0, 0, 0, 0, 0, 0, 0, 0]"
  by (simp add: make_bytes_def headerSize_def eval_nat_numeral)

lemma createHeader_bytes:
  "createHeader sid t fl len =
     [t, fl, ucast (drop_bit 24 sid), ucast (drop_bit 16 sid), ucast (drop_bit 8 sid), ucast sid,
      ucast (drop_bit 24 len), ucast (drop_bit 16 len), ucast (drop_bit 8 len), ucast len]"
  by (simp add: createHeader_def PutUint32_def make_bytes_10)

lemma pong_bytes:
  "(make_bytes headerSize)[0 := t, 1 := fl, 2 := 0, 6 := 0] = [t, fl, 0, 0, 0, 0, 0, 0, 0, 0]"
  by (simp add: make_bytes_10)

lemma byte_of: "unat (ucast (drop_bit k (v::uint32)) :: byte) = (unat v div 2 ^ k) mod 256"
  unfolding unsigned_ucast_eq unat_drop_bit_eq by (simp add: take_bit_eq_mod drop_bit_eq_div)

lemma be32_bytes:
  "be32 [ucast (drop_bit 24 v), ucast (drop_bit 16 v), ucast (drop_bit 8 v), ucast v] = unat (v::uint32)"
proof -
  define x where "x = unat v"
  have lt: "x < 4294967296" using unsigned_less[of v, where 'a=nat] by (simp add: x_def)
  have a: "x = (x div 256) * 256 + x mod 256" by simp
  have b: "x div 256 = (x div 65536) * 256 + (x div 256) mod 256"
    using div_mult_mod_eq[of "x div 256" 256] div_mult2_eq[of x 256 256] by simp
  have c: "x div 65536 = (x div 16777216) * 256 + (x div 65536) mod 256"
    using div_mult_mod_eq[of "x div 65536" 256] div_mult2_eq[of x 65536 256] by simp
  have d: "(x div 16777216) mod 256 = x div 16777216"
    using lt by (simp add: less_mult_imp_div_less)
  have "(x div 16777216) mod 256 * 16777216 + (x div 65536) mod 256 * 65536 + (x div 256) mod 256 * 256 + x mod 256 = x"
    using a b c d by linarith
  then show ?thesis
    using byte_of[of 24 v] byte_of[of 16 v] byte_of[of 8 v] byte_of[of 0 v]
    by (simp add: x_def be32_def)
qed

lemma Uint32_bytes:
  "Uint32 [ucast (drop_bit 24 v), ucast (drop_bit 16 v), ucast (drop_bit 8 v), ucast v] = (v::uint32)"
  unfolding Uint32_def
  apply simp
  apply (rule bit_word_eqI)
  apply (auto simp add: bit_simps)
  using nat_diff_split_asm apply fastforce
  done

lemma wire_frame_createHeader:
  "wire_frame t fl (unat sid) (unat len) p (createHeader sid t fl len @ p)"
  by (simp add: wire_frame_def createHeader_bytes be32_bytes)

lemma decode_createHeader:
  "createHeader sid t fl len ! 0 = t" "createHeader sid t fl len ! 1 = fl"
  "Uint32 (take 4 (drop 2 (createHeader sid t fl len))) = sid"
  "Uint32 (take 4 (drop 6 (createHeader sid t fl len))) = len"
  "length (createHeader sid t fl len) = 10"
  by (simp_all add: createHeader_bytes Uint32_bytes)

lemma wire_frame_pong: "wire_frame t fl 0 0 [] [t, fl, 0, 0, 0, 0, 0, 0, 0, 0]"
  by (simp add: wire_frame_def be32_def)

lemma Session_write_can:
  "can_enqueue s \<Longrightarrow> Session_write s data = (None, s\<lparr>writeCh := writeCh s @ [data]\<rparr>)"
  by (simp add: Session_write_def can_enqueue_def)

lemma Session_write_cannot:
  "\<not> can_enqueue s \<Longrightarrow> Session_write s data =
     (Some (if IsClosed s then Errorf ''session closed'' else Errorf ''write timeout''), s)"
  by (auto simp add: Session_write_def can_enqueue_def)

lemma wire_frame_header:
  "wire_frame t fl (unat sid) (unat len) [] (createHeader sid t fl len)"
  using wire_frame_createHeader[of t fl sid len "[]"] by simp

lemma unat_len32: "unat (of_nat n :: uint32) = n mod 2 ^ 32"
  by (simp add: unat_of_nat)

lemma OpenStream_open:
  "\<not> IsClosed s \<Longrightarrow>
     OpenStream s =
       (let s1 = s\<lparr>nextStreamID := nextStreamID s + 2,
                     heap := heap s @ [newStream (nextStreamID s)],
                     streams := AList.update (nextStreamID s) (length (heap s)) (streams s)\<rparr>
        in if length (writeCh s) < 16
           then ((Some (length (heap s)), None),
                 s1\<lparr>writeCh := writeCh s @ [createHeader (nextStreamID s) typeSYN 0 0]\<rparr>)
           else ((None, Some (Errorf ''write timeout'')), s1))"
  by (simp add: OpenStream_def OpenStream_alloc_def OpenStream_send_def Session_write_def
      IsClosed_def Let_def createHeader_def)

lemma OpenStream_closed:
  "IsClosed s \<Longrightarrow> OpenStream s = ((None, Some (Errorf ''session closed'')), s)"
  by (simp add: OpenStream_def)

lemma Stream_Write_eq:
  "Stream_Write s st p =
     (if Stream.closed (heap s ! st) then ((0, Some (Errorf ''stream closed'')), s)
      else if p = [] then ((0, None), s)
      else if IsClosed s then ((0, Some (Errorf ''session closed'')), s)
      else if length (writeCh s) < 16 then
        ((length p, None),
         s\<lparr>writeCh := writeCh s @ [createHeader (stream_id (heap s ! st)) typeData 0
                                        (of_nat (length p)) @ p]\<rparr>)
      else ((0, Some (Errorf ''write timeout'')), s))"
  by (simp add: Stream_Write_def Session_write_def Let_def createHeader_def)

lemma Stream_Close_eq:
  "Stream_Close s st =
     (if Stream.closed (heap s ! st) then (None, s)
      else
        let s1 = s\<lparr>heap := (heap s)[st := (heap s ! st)\<lparr>Stream.closed := True\<rparr>]\<rparr>
        in if IsClosed s then (Some (Errorf ''session closed''), s1)
           else if length (writeCh s) < 16 then
             (None, s1\<lparr>writeCh := writeCh s @ [createHeader (stream_id (heap s ! st)) typeFIN 0 0]\<rparr>)
           else (Some (Errorf ''write timeout''), s1))"
  by (simp add: Stream_Close_def Session_write_def IsClosed_def Let_def createHeader_def)

lemma handleSYN_eq:
  "handleSYN s sid =
     (case map_of (streams s) sid of
        Some old \<Rightarrow> s
      | None \<Rightarrow>
          let s1 = s\<lparr>heap := heap s @ [newStream sid],
                     writeCh := (if can_enqueue s then writeCh s @ [createHeader sid typeACK 0 0]
                                 else writeCh s)\<rparr>
          in if int (length (acceptCh s)) < AcceptBacklog (config s)
             then s1\<lparr>streams := AList.update sid (length (heap s)) (streams s),
                     acceptCh := acceptCh s @ [length (heap s)]\<rparr>
             else s1\<lparr>streams := AList.delete sid (AList.update sid (length (heap s)) (streams s))\<rparr>)"
  by (simp add: handleSYN_def Session_write_def can_enqueue_def IsClosed_def Let_def
      createHeader_def split: option.splits)

lemma keepalive_step_can:
  "can_enqueue s \<Longrightarrow> \<not> readerShutdown s \<Longrightarrow>
     keepalive_step s = Return Continue (s\<lparr>writeCh := writeCh s @ [createHeader 0 typePING 0 0]\<rparr>)"
  by (simp add: keepalive_step_def Session_write_def can_enqueue_def Let_def createHeader_def)

lemma handlePING_eq:
  "handlePING s fl =
     (if can_enqueue s then s\<lparr>writeCh := writeCh s @ [[typePONG, fl, 0, 0, 0, 0, 0, 0, 0, 0]]\<rparr>
      else s)"
  by (simp add: handlePING_def Session_write_def can_enqueue_def make_bytes_10)

lemma OpenStream_frame:
  "can_enqueue s \<Longrightarrow> \<exists>f. writeCh (snd (OpenStream s)) = writeCh s @ [f]
       \<and> wire_frame typeSYN 0 (unat (nextStreamID s)) 0 [] f"
  using wire_frame_header[of typeSYN 0 "nextStreamID s" 0]
  by (simp add: OpenStream_open can_enqueue_def Let_def)

lemma OpenStream_no_frame:
  "\<not> can_enqueue s \<Longrightarrow> writeCh (snd (OpenStream s)) = writeCh s"
  by (cases "IsClosed s") (simp_all add: OpenStream_open OpenStream_closed can_enqueue_def Let_def)

lemma Stream_Write_frame:
  "can_enqueue s \<Longrightarrow> \<not> Stream.closed (heap s ! st) \<Longrightarrow> p \<noteq> [] \<Longrightarrow>
     \<exists>f. writeCh (snd (Stream_Write s st p)) = writeCh s @ [f]
       \<and> wire_frame typeData 0 (unat (stream_id (heap s ! st))) (length p mod 2 ^ 32) p f"
  using wire_frame_createHeader[of typeData 0 "stream_id (heap s ! st)" "of_nat (length p)" p]
  by (simp add: Stream_Write_eq can_enqueue_def unat_len32)

lemma Stream_Write_no_frame:
  "\<not> (can_enqueue s \<and> \<not> Stream.closed (heap s ! st) \<and> p \<noteq> []) \<Longrightarrow>
     writeCh (snd (Stream_Write s st p)) = writeCh s"
  by (auto simp add: Stream_Write_eq can_enqueue_def)

lemma Stream_Close_frame:
  "can_enqueue s \<Longrightarrow> \<not> Stream.closed (heap s ! st) \<Longrightarrow>
     \<exists>f. writeCh (snd (Stream_Close s st)) = writeCh s @ [f]
       \<and> wire_frame typeFIN 0 (unat (stream_id (heap s ! st))) 0 [] f"
  using wire_frame_header[of typeFIN 0 "stream_id (heap s ! st)" 0]
  by (simp add: Stream_Close_eq can_enqueue_def Let_def)

lemma Stream_Close_no_frame:
  "\<not> (can_enqueue s \<and> \<not> Stream.closed (heap s ! st)) \<Longrightarrow>
     writeCh (snd (Stream_Close s st)) = writeCh s"
  by (auto simp add: Stream_Close_eq can_enqueue_def Let_def)

lemma handleSYN_frame:
  "can_enqueue s \<Longrightarrow> map_of (streams s) sid = None \<Longrightarrow>
     \<exists>f. writeCh (handleSYN s sid) = writeCh s @ [f]
       \<and> wire_frame typeACK 0 (unat sid) 0 [] f"
  using wire_frame_header[of typeACK 0 sid 0]
  by (simp add: handleSYN_eq Let_def)

lemma handleSYN_no_frame:
  "\<not> (can_enqueue s \<and> map_of (streams s) sid = None) \<Longrightarrow>
     writeCh (handleSYN s sid) = writeCh s"
  by (auto simp add: handleSYN_eq Let_def split: option.splits)

lemma keepalive_frame:
  "can_enqueue s \<Longrightarrow> \<not> readerShutdown s \<Longrightarrow>
     \<exists>f. keepalive_step s = Return Continue (s\<lparr>writeCh := writeCh s @ [f]\<rparr>)
       \<and> wire_frame typePING 0 0 0 [] f"
  using wire_frame_header[of typePING 0 0 0] keepalive_step_can[of s] by auto

lemma handlePING_frame:
  "can_enqueue s \<Longrightarrow>
     \<exists>f. writeCh (handlePING s fl) = writeCh s @ [f] \<and> wire_frame typePONG fl 0 0 [] f"
  using wire_frame_pong[of typePONG fl] by (simp add: handlePING_eq)

lemma handlePING_no_frame:
  "\<not> can_enqueue s \<Longrightarrow> writeCh (handlePING s fl) = writeCh s"
  by (simp add: handlePING_eq)


lemma example_session_eq:
  "example_session =
     \<lparr>conn = newMockConn, config = NewConfig, heap = [newStream 2], streams = [(2, 0)],
      nextStreamID = 4, acceptCh = [], isRemoteClient = False, closed = False,
      readerShutdown = False, writeCh = [createHeader 2 typeSYN 0 0], writerShutdown = False\<rparr>"
  by (simp add: example_session_def client_on_def Client_def NewConfig_def OpenStream_open
      IsClosed_def Let_def newMockConn_def)

lemma closed_session_eq:
  "closed_session =
     \<lparr>conn = newMockConn\<lparr>Conn.closed := True, closeCalls := 1\<rparr>, config = NewConfig,
      heap = [(newStream 2)\<lparr>Stream.closed := True,
                Stream.readBuf := newBuffer\<lparr>buffer.closed := True, signal := True\<rparr>\<rparr>],
      streams = [(2, 0)],
      nextStreamID = 4, acceptCh = [], isRemoteClient = False, closed = True,
      readerShutdown = True, writeCh = [createHeader 2 typeSYN 0 0], writerShutdown = True\<rparr>"
  by (simp add: closed_session_def example_session_eq Session_Close_def Conn_Close_def
      close_stream_def buffer_Close_def newStream_def newBuffer_def newMockConn_def Let_def)

text \<open>
  Claim C1, as amended. Each of the six places that hand a frame to \<open>Session.write\<close>
  enqueues at most one byte sequence, and exactly one when the session is open and the
  channel has room: SYN from \<open>OpenStream\<close>, DATA from \<open>Stream.Write\<close>, FIN from
  \<open>Stream.Close\<close>, ACK from \<open>handleSYN\<close>, PING from the keepalive loop, PONG from
  \<open>handlePING\<close>. The sequence is a 10-byte header with the type at offset 0
  (DATA is 1, SYN is 2, FIN is 3, ACK is 4, PING is 5, PONG is 6), the flags
  at offset 1 (the flags of the PING for a PONG, 0 otherwise), the stream ID big-endian at
  offsets 2-5 (0 for PING and PONG) and the length big-endian at offsets 6-9. The length
  is 0 and nothing follows the header for the five other types; for DATA the payload
  follows the header and the length field is the payload byte count modulo \<open>2 ^ 32\<close>.
\<close>

theorem emitted_frames_wire_format:
  "typeData = 1 \<and> typeSYN = 2 \<and> typeFIN = 3 \<and> typeACK = 4 \<and> typePING = 5 \<and> typePONG = 6
 \<and> (\<exists>f. wire_frame typeSYN 0 (unat (nextStreamID s)) 0 [] f
       \<and> writeCh (snd (OpenStream s)) = writeCh s @ (if can_enqueue s then [f] else []))
 \<and> (\<exists>f. wire_frame typeData 0 (unat (stream_id (heap s ! st))) (length p mod 2 ^ 32) p f
       \<and> writeCh (snd (Stream_Write s st p))
           = writeCh s @ (if can_enqueue s \<and> \<not> Stream.closed (heap s ! st) \<and> p \<noteq> []
                          then [f] else []))
 \<and> (\<exists>f. wire_frame typeFIN 0 (unat (stream_id (heap s ! st))) 0 [] f
       \<and> writeCh (snd (Stream_Close s st))
           = writeCh s @ (if can_enqueue s \<and> \<not> Stream.closed (heap s ! st) then [f] else []))
 \<and> (\<exists>f. wire_frame typeACK 0 (unat sid) 0 [] f
       \<and> writeCh (handleSYN s sid)
           = writeCh s @ (if can_enqueue s \<and> map_of (streams s) sid = None then [f] else []))
 \<and> (\<exists>f. wire_frame typePING 0 0 0 [] f
       \<and> (can_enqueue s \<and> \<not> readerShutdown s \<longrightarrow>
            keepalive_step s = Return Continue (s\<lparr>writeCh := writeCh s @ [f]\<rparr>)))
 \<and> (\<exists>f. wire_frame typePONG fl 0 0 [] f
       \<and> writeCh (handlePING s fl) = writeCh s @ (if can_enqueue s then [f] else []))"
proof (intro conjI)
  show "typeData = 1" by (simp add: typeData_def)
  show "typeSYN = 2" by (simp add: typeSYN_def)
  show "typeFIN = 3" by (simp add: typeFIN_def)
  show "typeACK = 4" by (simp add: typeACK_def)
  show "typePING = 5" by (simp add: typePING_def)
  show "typePONG = 6" by (simp add: typePONG_def)
  show "\<exists>f. wire_frame typeSYN 0 (unat (nextStreamID s)) 0 [] f
       \<and> writeCh (snd (OpenStream s)) = writeCh s @ (if can_enqueue s then [f] else [])"
    using wire_frame_header[of typeSYN 0 "nextStreamID s" 0] OpenStream_no_frame[of s]
    by (intro exI[of _ "createHeader (nextStreamID s) typeSYN 0 0"])
       (simp add: OpenStream_open can_enqueue_def Let_def)
  show "\<exists>f. wire_frame typeData 0 (unat (stream_id (heap s ! st))) (length p mod 2 ^ 32) p f
       \<and> writeCh (snd (Stream_Write s st p))
           = writeCh s @ (if can_enqueue s \<and> \<not> Stream.closed (heap s ! st) \<and> p \<noteq> []
                          then [f] else [])"
    using wire_frame_createHeader[of typeData 0 "stream_id (heap s ! st)" "of_nat (length p)" p]
    by (intro exI[of _ "createHeader (stream_id (heap s ! st)) typeData 0 (of_nat (length p)) @ p"])
       (simp add: Stream_Write_eq can_enqueue_def unat_len32)
  show "\<exists>f. wire_frame typeFIN 0 (unat (stream_id (heap s ! st))) 0 [] f
       \<and> writeCh (snd (Stream_Close s st))
           = writeCh s @ (if can_enqueue s \<and> \<not> Stream.closed (heap s ! st) then [f] else [])"
    using wire_frame_header[of typeFIN 0 "stream_id (heap s ! st)" 0]
    by (intro exI[of _ "createHeader (stream_id (heap s ! st)) typeFIN 0 0"])
       (simp add: Stream_Close_eq can_enqueue_def Let_def)
  show "\<exists>f. wire_frame typeACK 0 (unat sid) 0 [] f
       \<and> writeCh (handleSYN s sid)
           = writeCh s @ (if can_enqueue s \<and> map_of (streams s) sid = None then [f] else [])"
    using wire_frame_header[of typeACK 0 sid 0]
    by (intro exI[of _ "createHeader sid typeACK 0 0"])
       (simp add: handleSYN_eq Let_def split: option.splits)
  show "\<exists>f. wire_frame typePING 0 0 0 [] f
       \<and> (can_enqueue s \<and> \<not> readerShutdown s \<longrightarrow>
            keepalive_step s = Return Continue (s\<lparr>writeCh := writeCh s @ [f]\<rparr>))"
    using wire_frame_header[of typePING 0 0 0] keepalive_step_can[of s]
    by (intro exI[of _ "createHeader 0 typePING 0 0"]) simp
  show "\<exists>f. wire_frame typePONG fl 0 0 [] f
       \<and> writeCh (handlePING s fl) = writeCh s @ (if can_enqueue s then [f] else [])"
    using wire_frame_pong[of typePONG fl]
    by (intro exI[of _ "[typePONG, fl, 0, 0, 0, 0, 0, 0, 0, 0]"]) (simp add: handlePING_eq)
qed

theorem emitted_frames_wire_format_witness:
  "can_enqueue example_session \<and> \<not> readerShutdown example_session
   \<and> \<not> Stream.closed (heap example_session ! 0)
   \<and> map_of (streams example_session) 1 = None
   \<and> (\<exists>f. wire_frame typeData 0 2 3 [7, 8, 9] f
         \<and> writeCh (snd (Stream_Write example_session 0 [7, 8, 9]))
             = writeCh example_session @ [f])
   \<and> (\<exists>f. wire_frame typePING 0 0 0 [] f
         \<and> keepalive_step example_session
             = Return Continue (example_session\<lparr>writeCh := writeCh example_session @ [f]\<rparr>))
   \<and> \<not> can_enqueue closed_session
   \<and> writeCh (snd (Stream_Write closed_session 0 [7, 8, 9])) = writeCh closed_session"
proof -
  have h: "can_enqueue example_session" "\<not> readerShutdown example_session"
      "\<not> Stream.closed (heap example_session ! 0)" "map_of (streams example_session) 1 = None"
      "stream_id (heap example_session ! 0) = 2"
    by (simp_all add: example_session_eq can_enqueue_def IsClosed_def newStream_def)
  have c: "\<not> can_enqueue closed_session"
    by (simp add: closed_session_eq can_enqueue_def IsClosed_def)
  show ?thesis
    using emitted_frames_wire_format[of example_session 0 "[7, 8, 9]" 1 0]
      emitted_frames_wire_format[of closed_session 0 "[7, 8, 9]" 1 0] h c
    by simp
qed

text \<open>
  The claim as first stated fails in two places. It gives the message types as 0 to 5:
  the SYN frame that \<open>OpenStream\<close> enqueues on a fresh server starts with the byte 2,
  not 1. And it says that the length field of every DATA frame equals the payload byte
  count: for a payload of \<open>2 ^ 32\<close> bytes \<open>uint32(len(p))\<close> is 0, and the frame
  that \<open>Stream.Write\<close> enqueues carries type 1 and length 0 in front of 4294967296
  payload bytes.
\<close>

theorem wire_format_counterexample:
  "writeCh (snd (OpenStream (server_on []))) = [[2, 0, 0, 0, 0, 1, 0, 0, 0, 0]]
   \<and> writeCh (snd (Stream_Write example_session 0 (replicate 4294967296 0)))
     = writeCh example_session @ [[1, 0, 0, 0, 0, 2, 0, 0, 0, 0] @ replicate 4294967296 0]
   \<and> \<not> wire_frame 1 0 2 (length (replicate 4294967296 (0::byte)))
         (replicate 4294967296 0) ([1, 0, 0, 0, 0, 2, 0, 0, 0, 0] @ replicate 4294967296 0)"
proof -
  have "\<not> IsClosed (server_on [])" "nextStreamID (server_on []) = 1"
      "writeCh (server_on []) = []"
    by (simp_all add: server_on_def Server_def NewConfig_def IsClosed_def)
  then have a: "writeCh (snd (OpenStream (server_on []))) = [[2, 0, 0, 0, 0, 1, 0, 0, 0, 0]]"
    by (simp add: OpenStream_open Let_def createHeader_bytes typeSYN_def)
  have b: "writeCh (snd (Stream_Write example_session 0 (replicate 4294967296 0)))
     = writeCh example_session @ [[1, 0, 0, 0, 0, 2, 0, 0, 0, 0] @ replicate 4294967296 0]"
    by (simp add: Stream_Write_eq example_session_eq IsClosed_def newStream_def
        createHeader_bytes typeData_def)
  have c: "\<not> wire_frame 1 0 2 (length (replicate 4294967296 (0::byte)))
         (replicate 4294967296 0) ([1, 0, 0, 0, 0, 2, 0, 0, 0, 0] @ replicate 4294967296 0)"
    by (simp add: wire_frame_def be32_def)
  show ?thesis using a b c by (intro conjI)
qed

section \<open>Allocation of stream IDs\<close>


lemma OpenStreams_snoc: "OpenStreams (Suc n) s = snd (OpenStream (OpenStreams n s))"
  by (induction n arbitrary: s) simp_all

lemma OpenStream_fields:
  assumes "\<not> IsClosed s"
  shows "\<not> IsClosed (snd (OpenStream s))"
    "nextStreamID (snd (OpenStream s)) = nextStreamID s + 2"
    "heap (snd (OpenStream s)) = heap s @ [newStream (nextStreamID s)]"
    "streams (snd (OpenStream s)) = AList.update (nextStreamID s) (length (heap s)) (streams s)"
  using assms by (simp_all add: OpenStream_open Let_def IsClosed_def)

lemma OpenStreams_open:
  "\<not> IsClosed s \<Longrightarrow>
     \<not> IsClosed (OpenStreams n s)
     \<and> nextStreamID (OpenStreams n s) = nextStreamID s + 2 * of_nat n
     \<and> heap (OpenStreams n s)
         = heap s @ map (\<lambda>k. newStream (nextStreamID s + 2 * of_nat k)) [0..<n]"
proof (induction n)
  case 0
  then show ?case by simp
next
  case (Suc n)
  then have ih: "\<not> IsClosed (OpenStreams n s)"
      "nextStreamID (OpenStreams n s) = nextStreamID s + 2 * of_nat n"
      "heap (OpenStreams n s)
         = heap s @ map (\<lambda>k. newStream (nextStreamID s + 2 * of_nat k)) [0..<n]"
    by simp_all
  show ?case
    unfolding OpenStreams_snoc
    using OpenStream_fields[OF ih(1)] ih(2,3) by (simp add: algebra_simps)
qed

lemma opened_ids_open:
  "\<not> IsClosed s \<Longrightarrow> opened_ids n s = map (\<lambda>k. nextStreamID s + 2 * of_nat k) [0..<n]"
  using OpenStreams_open[of s n] by (simp add: opened_ids_def newStream_def comp_def)

lemma OpenStreams_closed: "IsClosed s \<Longrightarrow> OpenStreams n s = s"
  by (induction n) (simp_all add: OpenStream_closed)

lemma opened_ids_closed: "IsClosed s \<Longrightarrow> opened_ids n s = []"
  by (simp add: opened_ids_def OpenStreams_closed)

lemma even_unat_word: "even (unat (w :: uint32)) \<longleftrightarrow> even w"
proof -
  have "bit (unat w) 0 \<longleftrightarrow> bit w 0" by (simp add: bit_unsigned_iff)
  then show ?thesis by (simp add: bit_0)
qed

lemma odd_id: "odd (unat (1 + 2 * (w :: uint32)))"
  unfolding even_unat_word by simp

lemma even_id: "even (unat (2 + 2 * (w :: uint32)))"
  unfolding even_unat_word by simp

lemma double_inj:
  assumes "i < 2 ^ 31" "j < 2 ^ 31" "(2 :: uint32) * of_nat i = 2 * of_nat j"
  shows "i = (j::nat)"
proof -
  have e: "(of_nat (2 * i) :: uint32) = of_nat (2 * j)"
    using assms(3) by simp
  have "unat (of_nat (2 * i) :: uint32) = unat (of_nat (2 * j) :: uint32)"
    by (rule arg_cong[OF e])
  then have "(2 * i) mod 2 ^ 32 = (2 * j) mod 2 ^ 32"
    unfolding unat_of_nat by simp
  moreover have "2 * i < 2 ^ 32" "2 * j < 2 ^ 32" using assms(1,2) by simp_all
  ultimately have "2 * i = 2 * j"
    by simp
  then show ?thesis by simp
qed

lemma distinct_ids:
  assumes "n \<le> 2 ^ 31"
  shows "distinct (map (\<lambda>k. (seed :: uint32) + 2 * of_nat k) [0..<n])"
proof -
  have "inj_on (\<lambda>k. seed + 2 * of_nat k) {0..<n}"
  proof (rule inj_onI)
    fix i j assume "i \<in> {0..<n}" "j \<in> {0..<n}" "seed + 2 * of_nat i = seed + 2 * of_nat j"
    then show "i = j" using assms double_inj[of i j] by simp
  qed
  then show ?thesis by (simp add: distinct_map)
qed

lemma wrap: "\<not> distinct (map (\<lambda>k. (seed :: uint32) + 2 * of_nat k) [0..<2147483649])"
proof
  assume "distinct (map (\<lambda>k. seed + 2 * of_nat k) [0..<2147483649])"
  then have inj: "inj_on (\<lambda>k. seed + 2 * of_nat k) {0..<2147483649}"
    by (simp add: distinct_map)
  have a: "(0::nat) \<in> {0..<2147483649}" and b: "(2147483648::nat) \<in> {0..<2147483649}"
    by simp_all
  have e: "seed + 2 * of_nat 0 = seed + 2 * of_nat (2147483648::nat)" by simp
  from inj_onD[OF inj e a b] show False by simp
qed


lemma Server_seed:
  "Server c cfg = Return e srv \<Longrightarrow> nextStreamID srv = 1 \<and> \<not> IsClosed srv"
  by (auto simp add: Server_def IsClosed_def Let_def split: if_splits)

lemma Client_seed:
  "Client c cfg = Return e cli \<Longrightarrow> nextStreamID cli = 2 \<and> \<not> IsClosed cli"
  by (auto simp add: Client_def IsClosed_def Let_def split: if_splits)

lemma Server_mock: "Server newMockConn None = Return None (server_on [])"
  by (simp add: Server_def server_on_def newMockConn_def NewConfig_def)

lemma Client_mock: "Client newMockConn None = Return None (client_on [])"
  by (simp add: Client_def client_on_def newMockConn_def NewConfig_def)

text \<open>
  Claim C2, as amended. \<open>Server\<close> seeds the counter at 1 and \<open>Client\<close> at 2. A
  call of \<open>OpenStream\<close> on an open session creates and registers a stream with the
  current counter value as its ID and advances the counter by 2 modulo \<open>2 ^ 32\<close>, so
  \<open>n\<close> calls in a row create the IDs \<open>seed + 2 k\<close> for \<open>k < n\<close>. All IDs
  allocated by a server are odd, all IDs allocated by a client are even, the two ends
  never allocate the same ID, and the IDs of up to \<open>2 ^ 31\<close> consecutive calls on one
  session are pairwise distinct.
\<close>

theorem stream_id_allocation:
  assumes "Server c cfg = Return e srv" and "Client c' cfg' = Return e' cli"
  shows "nextStreamID srv = 1 \<and> nextStreamID cli = 2
       \<and> (\<not> IsClosed s \<longrightarrow>
            heap (snd (OpenStream s)) = heap s @ [newStream (nextStreamID s)]
          \<and> map_of (streams (snd (OpenStream s))) (nextStreamID s) = Some (length (heap s))
          \<and> nextStreamID (snd (OpenStream s)) = nextStreamID s + 2
          \<and> opened_ids n s = map (\<lambda>k. nextStreamID s + 2 * of_nat k) [0..<n]
          \<and> nextStreamID (OpenStreams n s) = nextStreamID s + 2 * of_nat n
          \<and> (n \<le> 2 ^ 31 \<longrightarrow> distinct (opened_ids n s)))
       \<and> (\<forall>i \<in> set (opened_ids n srv). odd (unat i))
       \<and> (\<forall>i \<in> set (opened_ids m cli). even (unat i))
       \<and> set (opened_ids n srv) \<inter> set (opened_ids m cli) = {}"
proof -
  have srv: "nextStreamID srv = 1" "\<not> IsClosed srv"
    using Server_seed[OF assms(1)] by simp_all
  have cli: "nextStreamID cli = 2" "\<not> IsClosed cli"
    using Client_seed[OF assms(2)] by simp_all
  have odd: "\<forall>i \<in> set (opened_ids n srv). odd (unat i)"
    using odd_id by (simp add: opened_ids_open[OF srv(2)] srv(1))
  have even: "\<forall>i \<in> set (opened_ids m cli). even (unat i)"
    using even_id by (simp add: opened_ids_open[OF cli(2)] cli(1))
  have disj: "set (opened_ids n srv) \<inter> set (opened_ids m cli) = {}"
    using odd even by blast
  have step: "\<not> IsClosed s \<longrightarrow>
            heap (snd (OpenStream s)) = heap s @ [newStream (nextStreamID s)]
          \<and> map_of (streams (snd (OpenStream s))) (nextStreamID s) = Some (length (heap s))
          \<and> nextStreamID (snd (OpenStream s)) = nextStreamID s + 2
          \<and> opened_ids n s = map (\<lambda>k. nextStreamID s + 2 * of_nat k) [0..<n]
          \<and> nextStreamID (OpenStreams n s) = nextStreamID s + 2 * of_nat n
          \<and> (n \<le> 2 ^ 31 \<longrightarrow> distinct (opened_ids n s))"
  proof
    assume op: "\<not> IsClosed s"
    show "heap (snd (OpenStream s)) = heap s @ [newStream (nextStreamID s)]
          \<and> map_of (streams (snd (OpenStream s))) (nextStreamID s) = Some (length (heap s))
          \<and> nextStreamID (snd (OpenStream s)) = nextStreamID s + 2
          \<and> opened_ids n s = map (\<lambda>k. nextStreamID s + 2 * of_nat k) [0..<n]
          \<and> nextStreamID (OpenStreams n s) = nextStreamID s + 2 * of_nat n
          \<and> (n \<le> 2 ^ 31 \<longrightarrow> distinct (opened_ids n s))"
      using OpenStream_fields[OF op] OpenStreams_open[OF op, of n] opened_ids_open[OF op, of n]
        distinct_ids[of n "nextStreamID s"]
      by (simp add: update_conv')
  qed
  show ?thesis using srv(1) cli(1) step odd even disj by (intro conjI)
qed

theorem stream_id_allocation_witness:
  "Server newMockConn None = Return None (server_on [])
   \<and> Client newMockConn None = Return None (client_on [])
   \<and> \<not> IsClosed (server_on []) \<and> \<not> IsClosed (client_on []) \<and> (3::nat) \<le> 2 ^ 31
   \<and> opened_ids 3 (server_on []) = [1, 3, 5]
   \<and> opened_ids 3 (client_on []) = [2, 4, 6]
   \<and> distinct (opened_ids 3 (server_on []))
   \<and> set (opened_ids 3 (server_on [])) \<inter> set (opened_ids 3 (client_on [])) = {}"
proof -
  have o: "\<not> IsClosed (server_on [])" "nextStreamID (server_on []) = 1"
    using Server_seed[OF Server_mock] by simp_all
  have c: "\<not> IsClosed (client_on [])" "nextStreamID (client_on []) = 2"
    using Client_seed[OF Client_mock] by simp_all
  have u: "[0..<3] = [0, 1, 2]" by (simp add: upt_rec)
  from stream_id_allocation[OF Server_mock Client_mock, of "server_on []" 3 3]
    stream_id_allocation[OF Server_mock Client_mock, of "client_on []" 3 3] o c u
  show ?thesis by (simp add: Server_mock Client_mock)
qed

text \<open>
  The claim as first stated (an ID once assigned is never assigned again) fails: the
  counter is a \<open>uint32\<close>, and call number \<open>2 ^ 31 + 1\<close> on a fresh server allocates
  ID 1 again.
\<close>

theorem stream_id_reuse_counterexample:
  "\<not> distinct (opened_ids 2147483649 (server_on []))"
  using Server_seed[OF Server_mock] wrap[of 1] by (simp add: opened_ids_open)

section \<open>Concrete sessions\<close>


lemma OpenStreams_writeCh:
  "\<not> IsClosed s \<Longrightarrow> length (writeCh s) \<le> 16 \<Longrightarrow>
     length (writeCh (OpenStreams n s)) = min 16 (length (writeCh s) + n)"
proof (induction n)
  case 0
  then show ?case by simp
next
  case (Suc n)
  have op: "\<not> IsClosed (OpenStreams n s)"
    using OpenStreams_open[OF Suc.prems(1), of n] by simp
  show ?case
    unfolding OpenStreams_snoc
    using Suc by (auto simp add: OpenStream_open[OF op] Let_def)
qed

lemma client_on_eq:
  "client_on input =
     \<lparr>conn = newMockConn\<lparr>Conn.readBuf := input\<rparr>, config = NewConfig, heap = [], streams = [],
      nextStreamID = 2, acceptCh = [], isRemoteClient = False, closed = False,
      readerShutdown = False, writeCh = [], writerShutdown = False\<rparr>"
  by (simp add: client_on_def Client_def NewConfig_def)

lemma server_on_eq:
  "server_on input =
     \<lparr>conn = newMockConn\<lparr>Conn.readBuf := input\<rparr>, config = NewConfig, heap = [], streams = [],
      nextStreamID = 1, acceptCh = [], isRemoteClient = True, closed = False,
      readerShutdown = False, writeCh = [], writerShutdown = False\<rparr>"
  by (simp add: server_on_def Server_def NewConfig_def)

lemma full_session_facts:
  "\<not> IsClosed full_session" "length (writeCh full_session) = 16"
  "\<not> can_enqueue full_session"
  "heap full_session ! 0 = newStream 2"
  "length (heap full_session) = 16"
  "nextStreamID full_session = 34"
  "acceptCh full_session = []"
  "config full_session = NewConfig"
proof -
  have o: "\<not> IsClosed (client_on [])" by (simp add: client_on_eq IsClosed_def)
  have w: "length (writeCh (client_on [])) \<le> 16" by (simp add: client_on_eq)
  have n: "nextStreamID (client_on []) = 2" "heap (client_on []) = []"
    by (simp_all add: client_on_eq)
  show c: "\<not> IsClosed full_session"
    using OpenStreams_open[OF o, of 16] by (simp add: full_session_def)
  show l: "length (writeCh full_session) = 16"
    using OpenStreams_writeCh[OF o w, of 16] by (simp add: full_session_def client_on_eq)
  show "\<not> can_enqueue full_session" using l by (simp add: can_enqueue_def)
  have h: "heap full_session = map (\<lambda>k. newStream (2 + 2 * of_nat k)) [0..<16]"
    using OpenStreams_open[OF o, of 16] n by (simp add: full_session_def)
  show "heap full_session ! 0 = newStream 2"
    unfolding h by (subst nth_map) simp_all
  show "length (heap full_session) = 16" unfolding h by simp
  show "nextStreamID full_session = 34"
    using OpenStreams_open[OF o, of 16] n by (simp add: full_session_def)
  have "acceptCh (OpenStreams k s) = acceptCh s \<and> config (OpenStreams k s) = config s" for k s
    by (induction k arbitrary: s)
       (auto simp add: OpenStream_def OpenStream_alloc_def OpenStream_send_def Session_write_def
          Let_def split: if_splits)
  then show "acceptCh full_session = []" "config full_session = NewConfig"
    by (simp_all add: full_session_def client_on_eq)
qed

lemma pending_session_eq:
  "pending_session =
     example_session\<lparr>heap := [newStream 2, newStream 1],
                     writeCh := [createHeader 2 typeSYN 0 0, createHeader 1 typeACK 0 0],
                     streams := [(2, 0), (1, 1)], acceptCh := [1]\<rparr>"
  by (simp add: pending_session_def handleSYN_eq example_session_eq can_enqueue_def IsClosed_def
      NewConfig_def Let_def)

section \<open>Writing to a stream\<close>

text \<open>
  Claim C4. \<open>Stream.Write\<close> on a stream marked closed returns the stream-closed
  failure and leaves the session as it is; on an open stream with empty input it returns
  \<open>(0, nil)\<close> and leaves the session as it is; otherwise it passes one byte sequence,
  a 10-byte DATA header followed by the whole payload, to \<open>Session.write\<close> and returns
  that call's failure with 0, or the full input length. When the session is open with
  room in the channel exactly this sequence is appended to the channel; otherwise the
  failure is the session-closed or the write-timeout error and nothing is enqueued.
\<close>

theorem Stream_Write_contract:
  "(Stream.closed (heap s ! st) \<longrightarrow>
      Stream_Write s st p = ((0, Some (Errorf ''stream closed'')), s))
 \<and> (\<not> Stream.closed (heap s ! st) \<and> p = [] \<longrightarrow> Stream_Write s st p = ((0, None), s))
 \<and> (\<not> Stream.closed (heap s ! st) \<and> p \<noteq> [] \<longrightarrow>
      (\<exists>hdr. length hdr = 10 \<and> hdr ! 0 = typeData
         \<and> Stream_Write s st p =
             (case Session_write s (hdr @ p) of
                (None, s') \<Rightarrow> ((length p, None), s')
              | (Some err, s') \<Rightarrow> ((0, Some err), s'))
         \<and> (can_enqueue s \<longrightarrow>
               Stream_Write s st p = ((length p, None), s\<lparr>writeCh := writeCh s @ [hdr @ p]\<rparr>))
         \<and> (\<not> can_enqueue s \<longrightarrow>
               Stream_Write s st p =
                 ((0, Some (if IsClosed s then Errorf ''session closed''
                            else Errorf ''write timeout'')), s))))"
proof (intro conjI impI)
  assume "Stream.closed (heap s ! st)"
  then show "Stream_Write s st p = ((0, Some (Errorf ''stream closed'')), s)"
    by (simp add: Stream_Write_eq)
next
  assume "\<not> Stream.closed (heap s ! st) \<and> p = []"
  then show "Stream_Write s st p = ((0, None), s)"
    by (simp add: Stream_Write_eq)
next
  assume a: "\<not> Stream.closed (heap s ! st) \<and> p \<noteq> []"
  define hdr where "hdr = createHeader (stream_id (heap s ! st)) typeData 0 (of_nat (length p))"
  have "length hdr = 10" "hdr ! 0 = typeData"
    by (simp_all add: hdr_def decode_createHeader)
  moreover have "Stream_Write s st p =
             (case Session_write s (hdr @ p) of
                (None, s') \<Rightarrow> ((length p, None), s')
              | (Some err, s') \<Rightarrow> ((0, Some err), s'))"
    using a by (simp add: Stream_Write_def Let_def hdr_def createHeader_def)
  moreover have "can_enqueue s \<longrightarrow>
               Stream_Write s st p = ((length p, None), s\<lparr>writeCh := writeCh s @ [hdr @ p]\<rparr>)"
    using a by (simp add: Stream_Write_eq can_enqueue_def hdr_def)
  moreover have "\<not> can_enqueue s \<longrightarrow>
               Stream_Write s st p =
                 ((0, Some (if IsClosed s then Errorf ''session closed''
                            else Errorf ''write timeout'')), s)"
    using a by (auto simp add: Stream_Write_eq can_enqueue_def)
  ultimately show "\<exists>hdr. length hdr = 10 \<and> hdr ! 0 = typeData
         \<and> Stream_Write s st p =
             (case Session_write s (hdr @ p) of
                (None, s') \<Rightarrow> ((length p, None), s')
              | (Some err, s') \<Rightarrow> ((0, Some err), s'))
         \<and> (can_enqueue s \<longrightarrow>
               Stream_Write s st p = ((length p, None), s\<lparr>writeCh := writeCh s @ [hdr @ p]\<rparr>))
         \<and> (\<not> can_enqueue s \<longrightarrow>
               Stream_Write s st p =
                 ((0, Some (if IsClosed s then Errorf ''session closed''
                            else Errorf ''write timeout'')), s))"
    by (intro exI[of _ hdr] conjI)
qed

theorem Stream_Write_contract_witness:
  "Stream.closed (heap closed_session ! 0)
   \<and> Stream_Write closed_session 0 [7, 8, 9] = ((0, Some (Errorf ''stream closed'')), closed_session)
   \<and> \<not> Stream.closed (heap example_session ! 0)
   \<and> Stream_Write example_session 0 [] = ((0, None), example_session)
   \<and> can_enqueue example_session
   \<and> fst (Stream_Write example_session 0 [7, 8, 9]) = (3, None)
   \<and> \<not> Stream.closed (heap full_session ! 0) \<and> \<not> can_enqueue full_session
   \<and> Stream_Write full_session 0 [7, 8, 9] = ((0, Some (Errorf ''write timeout'')), full_session)"
proof -
  have c: "Stream.closed (heap closed_session ! 0)"
    by (simp add: closed_session_eq)
  have e: "\<not> Stream.closed (heap example_session ! 0)" "can_enqueue example_session"
    by (simp_all add: example_session_eq newStream_def can_enqueue_def IsClosed_def)
  have f: "\<not> Stream.closed (heap full_session ! 0)" "\<not> can_enqueue full_session"
      "\<not> IsClosed full_session"
    by (simp_all add: full_session_facts newStream_def)
  from Stream_Write_contract[of closed_session 0 "[7, 8, 9]"] c
  have 1: "Stream_Write closed_session 0 [7, 8, 9]
            = ((0, Some (Errorf ''stream closed'')), closed_session)"
    by simp
  from Stream_Write_contract[of example_session 0 "[]"] e
  have 2: "Stream_Write example_session 0 [] = ((0, None), example_session)"
    by simp
  from Stream_Write_contract[of example_session 0 "[7, 8, 9]"] e
  obtain hdr where "Stream_Write example_session 0 [7, 8, 9]
      = ((length [7, 8, 9 :: byte], None),
         example_session\<lparr>writeCh := writeCh example_session @ [hdr @ [7, 8, 9]]\<rparr>)"
    by blast
  then have 3: "fst (Stream_Write example_session 0 [7, 8, 9]) = (3, None)"
    by simp
  from Stream_Write_contract[of full_session 0 "[7, 8, 9]"] f
  have 4: "Stream_Write full_session 0 [7, 8, 9]
            = ((0, Some (Errorf ''write timeout'')), full_session)"
    by auto
  show ?thesis using c e f(1,2) 1 2 3 4 by (intro conjI)
qed

section \<open>Accepting a stream\<close>

text \<open>
  Claim C8. \<open>AcceptStream\<close> on a closed session fails with the session-closed error.
  On an open session it returns the first pending stream of the accept channel, or, with
  no pending stream, it fails with the accept-timeout error, which differs from the
  session-closed error, and the session (its closed flag and all its streams) is
  unchanged.
\<close>

theorem AcceptStream_contract:
  "(IsClosed s \<longrightarrow> AcceptStream s = ((None, Some (Errorf ''session closed'')), s))
 \<and> (\<not> IsClosed s \<and> acceptCh s = st # rest \<longrightarrow>
      AcceptStream s = ((Some st, None), s\<lparr>acceptCh := rest\<rparr>))
 \<and> (\<not> IsClosed s \<and> acceptCh s = [] \<longrightarrow>
      AcceptStream s = ((None, Some (Errorf ''timeout waiting for new stream'')), s))
 \<and> Errorf ''timeout waiting for new stream'' \<noteq> Errorf ''session closed''"
  by (simp add: AcceptStream_def)

theorem AcceptStream_contract_witness:
  "IsClosed closed_session
   \<and> AcceptStream closed_session = ((None, Some (Errorf ''session closed'')), closed_session)
   \<and> \<not> IsClosed pending_session \<and> acceptCh pending_session = 1 # []
   \<and> AcceptStream pending_session = ((Some 1, None), pending_session\<lparr>acceptCh := []\<rparr>)
   \<and> \<not> IsClosed example_session \<and> acceptCh example_session = []
   \<and> AcceptStream example_session
       = ((None, Some (Errorf ''timeout waiting for new stream'')), example_session)"
proof -
  have c: "IsClosed closed_session" by (simp add: closed_session_eq IsClosed_def)
  have p: "\<not> IsClosed pending_session" "acceptCh pending_session = 1 # []"
    by (simp_all add: pending_session_eq example_session_eq IsClosed_def)
  have e: "\<not> IsClosed example_session" "acceptCh example_session = []"
    by (simp_all add: example_session_eq IsClosed_def)
  show ?thesis
    using AcceptStream_contract[of closed_session 0 "[]"]
      AcceptStream_contract[of pending_session 1 "[]"]
      AcceptStream_contract[of example_session 0 "[]"] c p e
    by simp
qed


section \<open>Closing sessions and streams\<close>


lemma closed_stream_idem: "closed_stream (closed_stream st) = closed_stream st"
  by (simp add: closed_stream_def buffer_Close_def)

lemma closed_stream_facts:
  "Stream.closed (closed_stream st)" "buffer.closed (Stream.readBuf (closed_stream st))"
  "stream_id (closed_stream st) = stream_id st"
  "unread (Stream.readBuf (closed_stream st)) = unread (Stream.readBuf st)"
  by (simp_all add: closed_stream_def buffer_Close_def unread_def)

lemma close_stream_nth:
  "i < length h \<Longrightarrow> close_stream r h ! i = (if i = r then closed_stream (h ! i) else h ! i)"
  by (simp add: close_stream_def closed_stream_def nth_list_update)

lemma length_close_stream: "length (close_stream r h) = length h"
  by (simp add: close_stream_def)

lemma length_fold_close: "length (fold close_stream rs h) = length h"
  by (induction rs arbitrary: h) (simp_all add: length_close_stream)

lemma fold_close_nth:
  "i < length h \<Longrightarrow>
     fold close_stream rs h ! i = (if i \<in> set rs then closed_stream (h ! i) else h ! i)"
proof (induction rs arbitrary: h)
  case Nil
  then show ?case by simp
next
  case (Cons r rs)
  have "i < length (close_stream r h)" using Cons.prems by (simp add: length_close_stream)
  from Cons.IH[OF this] show ?case
    using Cons.prems by (auto simp add: close_stream_nth closed_stream_idem)
qed

lemma Session_Close_open:
  "\<not> Session.closed s \<Longrightarrow> \<not> readerShutdown s \<Longrightarrow> \<not> writerShutdown s \<Longrightarrow>
     Session_Close s =
       Return (closeErr (conn s))
         (s\<lparr>Session.closed := True,
            heap := fold close_stream (map snd (streams s)) (heap s),
            readerShutdown := True, writerShutdown := True,
            conn := (conn s)\<lparr>Conn.closed := True, closeCalls := closeCalls (conn s) + 1\<rparr>\<rparr>)"
  by (simp add: Session_Close_def Conn_Close_def Let_def)

lemma Session_Close_closed: "Session.closed s \<Longrightarrow> Session_Close s = Return None s"
  by (simp add: Session_Close_def)


lemma session_inv_example: "session_inv example_session"
  using newBuffer_inv
  by (simp add: session_inv_def example_session_eq newStream_def)

lemma session_inv_closed: "session_inv closed_session"
  using buffer_Close_inv[OF newBuffer_inv]
  by (simp add: session_inv_def closed_session_eq newStream_def buffer_Close_def newBuffer_def)

text \<open>
  Claim C5, as amended. In a well-formed session the first \<open>Session.Close\<close> marks the
  session closed, marks every registered stream closed and closes its buffer (the other
  streams and the unread bytes are untouched), closes both shutdown channels, closes the
  connection once and returns what the connection's \<open>Close\<close> returned; a further call
  returns \<open>nil\<close> and changes nothing. The first \<open>Stream.Close\<close> marks the stream
  closed and hands one FIN frame to \<open>Session.write\<close>: with an open session and room in
  the channel the frame is enqueued and the call returns \<open>nil\<close>, otherwise no frame is
  enqueued and the call returns the session-closed or write-timeout error; a further call
  returns \<open>nil\<close> and changes nothing.
\<close>

theorem Close_twice:
  assumes "session_inv s" and "st < length (heap s)"
  shows
  "(\<not> Session.closed s \<longrightarrow>
      (\<exists>s'. Session_Close s = Return (closeErr (conn s)) s'
          \<and> Session.closed s' \<and> readerShutdown s' \<and> writerShutdown s'
          \<and> (\<forall>r \<in> snd ` set (streams s). heap s' ! r = closed_stream (heap s ! r))
          \<and> (\<forall>r < length (heap s). r \<notin> snd ` set (streams s) \<longrightarrow> heap s' ! r = heap s ! r)
          \<and> Conn.closed (conn s') \<and> closeCalls (conn s') = closeCalls (conn s) + 1
          \<and> writeCh s' = writeCh s
          \<and> Session_Close s' = Return None s'))
 \<and> (Session.closed s \<longrightarrow> Session_Close s = Return None s)
 \<and> (\<not> Stream.closed (heap s ! st) \<longrightarrow>
      (\<exists>err s'. Stream_Close s st = (err, s')
          \<and> s'\<lparr>writeCh := writeCh s\<rparr> = s\<lparr>heap := (heap s)[st := (heap s ! st)\<lparr>Stream.closed := True\<rparr>]\<rparr>
          \<and> (\<exists>f. wire_frame typeFIN 0 (unat (stream_id (heap s ! st))) 0 [] f
                \<and> writeCh s' = writeCh s @ (if can_enqueue s then [f] else []))
          \<and> err = (if can_enqueue s then None
                    else Some (if IsClosed s then Errorf ''session closed''
                               else Errorf ''write timeout''))
          \<and> Stream_Close s' st = (None, s')))
 \<and> (Stream.closed (heap s ! st) \<longrightarrow> Stream_Close s st = (None, s))"
proof (intro conjI impI)
  assume op: "\<not> Session.closed s"
  then have sh: "\<not> readerShutdown s" "\<not> writerShutdown s"
    using assms(1) by (auto simp add: session_inv_def)
  define s' where "s' = s\<lparr>Session.closed := True,
            heap := fold close_stream (map snd (streams s)) (heap s),
            readerShutdown := True, writerShutdown := True,
            conn := (conn s)\<lparr>Conn.closed := True, closeCalls := closeCalls (conn s) + 1\<rparr>\<rparr>"
  have c: "Session_Close s = Return (closeErr (conn s)) s'"
    using Session_Close_open[OF op sh] by (simp add: s'_def)
  have valid: "\<forall>r \<in> snd ` set (streams s). r < length (heap s)"
    using assms(1) by (simp add: session_inv_def)
  have reg: "\<forall>r \<in> snd ` set (streams s). heap s' ! r = closed_stream (heap s ! r)"
    using valid by (auto simp add: s'_def fold_close_nth)
  have unreg: "\<forall>r < length (heap s). r \<notin> snd ` set (streams s) \<longrightarrow> heap s' ! r = heap s ! r"
    by (auto simp add: s'_def fold_close_nth)
  have again: "Session_Close s' = Return None s'"
    by (rule Session_Close_closed) (simp add: s'_def)
  show "\<exists>s'. Session_Close s = Return (closeErr (conn s)) s'
          \<and> Session.closed s' \<and> readerShutdown s' \<and> writerShutdown s'
          \<and> (\<forall>r \<in> snd ` set (streams s). heap s' ! r = closed_stream (heap s ! r))
          \<and> (\<forall>r < length (heap s). r \<notin> snd ` set (streams s) \<longrightarrow> heap s' ! r = heap s ! r)
          \<and> Conn.closed (conn s') \<and> closeCalls (conn s') = closeCalls (conn s) + 1
          \<and> writeCh s' = writeCh s
          \<and> Session_Close s' = Return None s'"
    using c reg unreg again by (intro exI[of _ s']) (simp add: s'_def)
next
  assume "Session.closed s"
  then show "Session_Close s = Return None s" by (rule Session_Close_closed)
next
  assume op: "\<not> Stream.closed (heap s ! st)"
  define f where "f = createHeader (stream_id (heap s ! st)) typeFIN 0 0"
  define s1 where "s1 = s\<lparr>heap := (heap s)[st := (heap s ! st)\<lparr>Stream.closed := True\<rparr>]\<rparr>"
  define s' where "s' = (if can_enqueue s then s1\<lparr>writeCh := writeCh s @ [f]\<rparr> else s1)"
  define err where "err = (if can_enqueue s then None
                    else Some (if IsClosed s then Errorf ''session closed''
                               else Errorf ''write timeout''))"
  have c: "Stream_Close s st = (err, s')"
    using op by (auto simp add: Stream_Close_eq Let_def s'_def s1_def err_def f_def can_enqueue_def)
  have cl: "Stream.closed (heap s' ! st)"
    using assms(2) by (simp add: s'_def s1_def)
  have again: "Stream_Close s' st = (None, s')"
    using cl by (simp add: Stream_Close_eq)
  have w: "wire_frame typeFIN 0 (unat (stream_id (heap s ! st))) 0 [] f"
    using wire_frame_header[of typeFIN 0 "stream_id (heap s ! st)" 0] by (simp add: f_def)
  have wc: "writeCh s' = writeCh s @ (if can_enqueue s then [f] else [])"
    by (simp add: s'_def s1_def)
  have rest: "s'\<lparr>writeCh := writeCh s\<rparr> = s1"
    by (simp add: s'_def s1_def)
  show "\<exists>err s'. Stream_Close s st = (err, s')
          \<and> s'\<lparr>writeCh := writeCh s\<rparr> = s\<lparr>heap := (heap s)[st := (heap s ! st)\<lparr>Stream.closed := True\<rparr>]\<rparr>
          \<and> (\<exists>f. wire_frame typeFIN 0 (unat (stream_id (heap s ! st))) 0 [] f
                \<and> writeCh s' = writeCh s @ (if can_enqueue s then [f] else []))
          \<and> err = (if can_enqueue s then None
                    else Some (if IsClosed s then Errorf ''session closed''
                               else Errorf ''write timeout''))
          \<and> Stream_Close s' st = (None, s')"
    using c rest w wc again
    by (intro exI[of _ err] exI[of _ s'] conjI exI[of _ f]) (simp_all add: err_def s1_def)
next
  assume "Stream.closed (heap s ! st)"
  then show "Stream_Close s st = (None, s)" by (simp add: Stream_Close_eq)
qed

theorem Close_twice_witness:
  "session_inv example_session \<and> 0 < length (heap example_session)
   \<and> \<not> Session.closed example_session \<and> \<not> Stream.closed (heap example_session ! 0)
   \<and> Session_Close example_session = Return None closed_session
   \<and> Session_Close closed_session = Return None closed_session
   \<and> fst (Stream_Close example_session 0) = None
   \<and> session_inv closed_session \<and> Session.closed closed_session
   \<and> Stream.closed (heap closed_session ! 0)
   \<and> Stream_Close closed_session 0 = (None, closed_session)"
proof -
  have e: "0 < length (heap example_session)" "\<not> Session.closed example_session"
      "\<not> Stream.closed (heap example_session ! 0)" "can_enqueue example_session"
      "closeErr (conn example_session) = None"
    by (simp_all add: example_session_eq newStream_def can_enqueue_def IsClosed_def newMockConn_def)
  have c: "0 < length (heap closed_session)" "Session.closed closed_session"
      "Stream.closed (heap closed_session ! 0)"
    by (simp_all add: closed_session_eq)
  from Close_twice[OF session_inv_example e(1)] e
  obtain s' where s': "Session_Close example_session = Return None s'"
      "Session_Close s' = Return None s'" "fst (Stream_Close example_session 0) = None"
    by auto
  then have "s' = closed_session" by (simp add: closed_session_def)
  with s' have 1: "Session_Close example_session = Return None closed_session"
      "Session_Close closed_session = Return None closed_session"
    by simp_all
  from Close_twice[OF session_inv_closed c(1)] c
  have 2: "Stream_Close closed_session 0 = (None, closed_session)" by simp
  show ?thesis
    using session_inv_example session_inv_closed e(1,2,3) c(2,3) 1 s'(3) 2 by (intro conjI)
qed

text \<open>
  The claim as first stated (both calls return success, the first stream \<open>Close\<close>
  emits one FIN frame) fails when the outbound channel is full: the first
  \<open>Stream.Close\<close> returns the write-timeout error and enqueues nothing.
\<close>

theorem stream_Close_failure_counterexample:
  "\<not> Stream.closed (heap full_session ! 0)
   \<and> Stream_Close full_session 0 =
       (Some (Errorf ''write timeout''),
        full_session\<lparr>heap := (heap full_session)[0 := (heap full_session ! 0)\<lparr>Stream.closed := True\<rparr>]\<rparr>)"
  using full_session_facts(1,2)
  by (simp add: Stream_Close_eq full_session_facts(4) newStream_def Let_def)

section \<open>Opening a stream when the SYN frame cannot be enqueued\<close>
lemma OpenStream_alloc_eq:
  "OpenStream_alloc s =
     ((nextStreamID s, length (heap s)),
      s\<lparr>nextStreamID := nextStreamID s + 2,
        heap := heap s @ [newStream (nextStreamID s)],
        streams := AList.update (nextStreamID s) (length (heap s)) (streams s)\<rparr>)"
  by (simp add: OpenStream_alloc_def Let_def)

lemma OpenStream_send_eq:
  "OpenStream_send s streamID stream =
     (if can_enqueue s
      then ((Some stream, None), s\<lparr>writeCh := writeCh s @ [createHeader streamID typeSYN 0 0]\<rparr>)
      else ((None, Some (if IsClosed s then Errorf ''session closed''
                         else Errorf ''write timeout'')), s))"
  by (auto simp add: OpenStream_send_def Session_write_def can_enqueue_def Let_def createHeader_def)

text \<open>
  Claim C10. On an open session \<open>OpenStream\<close> first allocates the current counter
  value, registers the new stream under it and advances the counter by 2. When the SYN
  frame cannot be enqueued afterwards, because the channel is full or because the session
  was closed after the allocation, the call returns \<open>nil\<close> with the error, and the
  stream is still registered and the counter still advanced: the sending part never
  touches the registry or the counter.
\<close>

theorem OpenStream_failure_keeps_allocation:
  assumes "\<not> IsClosed s" and "OpenStream_alloc s = ((streamID, stream), s1)"
  shows "streamID = nextStreamID s \<and> stream = length (heap s)
       \<and> map_of (streams s1) streamID = Some stream
       \<and> heap s1 ! stream = newStream streamID
       \<and> nextStreamID s1 = nextStreamID s + 2
       \<and> (\<not> can_enqueue s \<longrightarrow>
            OpenStream s = ((None, Some (Errorf ''write timeout'')), s1))
       \<and> (can_enqueue s \<longrightarrow> fst (OpenStream s) = (Some stream, None))
       \<and> (Session_Close s1 = Return e s2 \<longrightarrow>
            OpenStream_send s2 streamID stream = ((None, Some (Errorf ''session closed'')), s2)
          \<and> map_of (streams s2) streamID = Some stream
          \<and> nextStreamID s2 = nextStreamID s + 2)
       \<and> (snd (fst (OpenStream_send s' streamID stream)) \<noteq> None \<longrightarrow>
            OpenStream_send s' streamID stream
              = ((None, Some (if IsClosed s' then Errorf ''session closed''
                              else Errorf ''write timeout'')), s'))"
proof -
  have a: "streamID = nextStreamID s" "stream = length (heap s)"
    "s1 = s\<lparr>nextStreamID := nextStreamID s + 2,
        heap := heap s @ [newStream (nextStreamID s)],
        streams := AList.update (nextStreamID s) (length (heap s)) (streams s)\<rparr>"
    using assms(2) by (auto simp add: OpenStream_alloc_eq)
  have reg: "map_of (streams s1) streamID = Some stream" "heap s1 ! stream = newStream streamID"
    "nextStreamID s1 = nextStreamID s + 2"
    by (simp_all add: a update_conv')
  have ce: "can_enqueue s1 = can_enqueue s"
    by (simp add: a can_enqueue_def IsClosed_def)
  have os: "OpenStream s = OpenStream_send s1 streamID stream"
    using assms by (simp add: OpenStream_def)
  have to: "\<not> can_enqueue s \<longrightarrow> OpenStream s = ((None, Some (Errorf ''write timeout'')), s1)"
    using assms(1) ce by (simp add: os OpenStream_send_eq) (simp add: a IsClosed_def)
  have ok: "can_enqueue s \<longrightarrow> fst (OpenStream s) = (Some stream, None)"
    using ce by (simp add: os OpenStream_send_eq)
  have cl: "Session_Close s1 = Return e s2 \<longrightarrow>
            OpenStream_send s2 streamID stream = ((None, Some (Errorf ''session closed'')), s2)
          \<and> map_of (streams s2) streamID = Some stream
          \<and> nextStreamID s2 = nextStreamID s + 2"
  proof
    assume c: "Session_Close s1 = Return e s2"
    have "\<not> Session.closed s1" using assms(1) by (simp add: a IsClosed_def)
    with c have "Session.closed s2 \<and> streams s2 = streams s1 \<and> nextStreamID s2 = nextStreamID s1"
      by (auto simp add: Session_Close_def Conn_Close_def Let_def split: if_splits)
    then show "OpenStream_send s2 streamID stream = ((None, Some (Errorf ''session closed'')), s2)
          \<and> map_of (streams s2) streamID = Some stream
          \<and> nextStreamID s2 = nextStreamID s + 2"
      using reg by (simp add: OpenStream_send_eq can_enqueue_def IsClosed_def)
  qed
  have nr: "snd (fst (OpenStream_send s' streamID stream)) \<noteq> None \<longrightarrow>
            OpenStream_send s' streamID stream
              = ((None, Some (if IsClosed s' then Errorf ''session closed''
                              else Errorf ''write timeout'')), s')"
    by (simp add: OpenStream_send_eq)
  show ?thesis using a(1,2) reg to ok cl nr by (intro conjI)
qed


theorem OpenStream_failure_keeps_allocation_witness:
  "\<not> IsClosed full_session \<and> \<not> can_enqueue full_session
   \<and> OpenStream_alloc full_session = ((34, 16), snd (OpenStream_alloc full_session))
   \<and> OpenStream full_session
       = ((None, Some (Errorf ''write timeout'')), snd (OpenStream_alloc full_session))
   \<and> map_of (streams (snd (OpenStream full_session))) 34 = Some 16
   \<and> nextStreamID (snd (OpenStream full_session)) = 36
   \<and> \<not> IsClosed example_session \<and> can_enqueue example_session
   \<and> OpenStream_alloc example_session = ((4, 1), snd (OpenStream_alloc example_session))
   \<and> fst (OpenStream example_session) = (Some 1, None)
   \<and> (\<exists>c. Session_Close (snd (OpenStream_alloc example_session)) = Return None c
          \<and> OpenStream_send c 4 1 = ((None, Some (Errorf ''session closed'')), c)
          \<and> map_of (streams c) 4 = Some 1 \<and> nextStreamID c = 6)"
proof -
  have f: "\<not> IsClosed full_session" "\<not> can_enqueue full_session"
    by (simp_all add: full_session_facts)
  have fa: "OpenStream_alloc full_session = ((34, 16), snd (OpenStream_alloc full_session))"
    by (simp add: OpenStream_alloc_eq full_session_facts)
  have e: "\<not> IsClosed example_session" "can_enqueue example_session"
    by (simp_all add: example_session_eq can_enqueue_def IsClosed_def)
  have ea: "OpenStream_alloc example_session = ((4, 1), snd (OpenStream_alloc example_session))"
    by (simp add: OpenStream_alloc_eq example_session_eq)
  obtain c where c: "Session_Close (snd (OpenStream_alloc example_session)) = Return None c"
    by (simp add: OpenStream_alloc_eq example_session_eq Session_Close_open newMockConn_def)
  note t1 = OpenStream_failure_keeps_allocation[OF f(1) fa]
  note t2 = OpenStream_failure_keeps_allocation[OF e(1) ea, of None c]
  have 1: "OpenStream full_session
       = ((None, Some (Errorf ''write timeout'')), snd (OpenStream_alloc full_session))"
      "map_of (streams (snd (OpenStream_alloc full_session))) 34 = Some 16"
      "nextStreamID (snd (OpenStream_alloc full_session)) = 36"
    using t1 f(2) by (simp_all add: full_session_facts)
  have 2: "fst (OpenStream example_session) = (Some 1, None)"
      "OpenStream_send c 4 1 = ((None, Some (Errorf ''session closed'')), c)"
      "map_of (streams c) 4 = Some 1" "nextStreamID c = 6"
    using t2 e(2) c by (simp_all add: example_session_eq)
  have 3: "\<exists>c. Session_Close (snd (OpenStream_alloc example_session)) = Return None c
          \<and> OpenStream_send c 4 1 = ((None, Some (Errorf ''session closed'')), c)
          \<and> map_of (streams c) 4 = Some 1 \<and> nextStreamID c = 6"
    using c 2(2,3,4) by blast
  show ?thesis
    using f fa 1 e ea 2(1) 3 by (simp only: simp_thms fst_conv snd_conv)
qed


section \<open>The reader loop\<close>


lemma ReadFull_ok:
  assumes "\<not> Conn.closed c" "readErr c = None" "Conn.readBuf c = xs @ rest" "length xs = k"
  shows "ReadFull c k = ((k, None, xs), c\<lparr>Conn.readBuf := rest\<rparr>)"
proof (cases "k = 0")
  case True
  with assms show ?thesis by (simp add: ReadFull_def)
next
  case False
  with assms show ?thesis by (simp add: ReadFull_def Let_def min_def)
qed

lemma reader_step_frame:
  assumes "\<not> readerShutdown s" "\<not> Conn.closed (conn s)" "readErr (conn s) = None"
    "Conn.readBuf (conn s) = createHeader sid t fl len @ rest"
  shows "reader_step s =
     (let s1 = s\<lparr>conn := (conn s)\<lparr>Conn.readBuf := rest\<rparr>\<rparr>
      in if t = typeData then
           and_then (handleData s1 sid fl len) (\<lambda>u s'. Return Continue s')
         else if t = typeSYN then Return Continue (handleSYN s1 sid)
         else if t = typeFIN then Return Continue (handleFIN s1 sid)
         else if t = typeACK then Return Continue (handleACK s1 sid)
         else if t = typePING then Return Continue (handlePING s1 fl)
         else Return Continue s1)"
proof -
  have rf: "ReadFull (conn s) headerSize
          = ((headerSize, None, createHeader sid t fl len), (conn s)\<lparr>Conn.readBuf := rest\<rparr>)"
    using assms by (intro ReadFull_ok) (simp_all add: decode_createHeader headerSize_def)
  show ?thesis
    unfolding reader_step_def rf Let_def prod.case option.case decode_createHeader
    using assms(1) by (simp only: if_False if_cancel)
qed

lemma handleData_unknown:
  assumes "map_of (streams s) sid = None"
    "\<not> Conn.closed (conn s)" "readErr (conn s) = None"
    "Conn.readBuf (conn s) = payload @ rest" "length payload = unat len"
  shows "handleData s sid fl len = Return () (s\<lparr>conn := (conn s)\<lparr>Conn.readBuf := rest\<rparr>\<rparr>)"
proof (cases "0 < len")
  case True
  with assms show ?thesis
    by (simp add: handleData_def ReadFull_ok[OF assms(2,3,4,5)])
next
  case False
  then have "len = 0" by (simp add: word_neq_0_conv[symmetric])
  with assms show ?thesis by (simp add: handleData_def)
qed

lemma handleData_registered:
  assumes "map_of (streams s) sid = Some st" "st < length (heap s)"
    "buffer_inv (Stream.readBuf (heap s ! st))"
    "\<not> Conn.closed (conn s)" "readErr (conn s) = None"
    "Conn.readBuf (conn s) = payload @ rest" "length payload = unat len"
  shows "\<exists>b'. handleData s sid fl len
           = Return () (s\<lparr>conn := (conn s)\<lparr>Conn.readBuf := rest\<rparr>,
                          heap := (heap s)[st := (heap s ! st)\<lparr>Stream.readBuf := b'\<rparr>]\<rparr>)
         \<and> buffer_inv b'
         \<and> buffer.closed b' = buffer.closed (Stream.readBuf (heap s ! st))
         \<and> unread b' = unread (Stream.readBuf (heap s ! st))
                        @ (if buffer.closed (Stream.readBuf (heap s ! st)) then [] else payload)"
proof (cases "0 < len")
  case False
  then have "len = 0" by (simp add: word_neq_0_conv[symmetric])
  with assms have "payload = []" by simp
  with assms \<open>len = 0\<close> show ?thesis
    by (intro exI[of _ "Stream.readBuf (heap s ! st)"]) (simp add: handleData_def)
next
  case True
  then have "0 < unat len" by (simp add: unat_gt_0 word_neq_0_conv)
  then have ne: "payload \<noteq> []" using assms(7) by auto
  have rf: "ReadFull (conn s) (unat len) = ((unat len, None, payload), (conn s)\<lparr>Conn.readBuf := rest\<rparr>)"
    by (rule ReadFull_ok[OF assms(4,5,6,7)])
  show ?thesis
  proof (cases "buffer.closed (Stream.readBuf (heap s ! st))")
    case closed: True
    with assms(1,3) True rf ne show ?thesis
      by (intro exI[of _ "Stream.readBuf (heap s ! st)"])
         (simp add: handleData_def buffer_Write_closed)
  next
    case opn: False
    from buffer_Write_ok[OF assms(3) opn, of payload] obtain b' where
      b': "buffer_Write (Stream.readBuf (heap s ! st)) payload = Return (length payload, None) b'"
        "buffer_inv b'" "unread b' = unread (Stream.readBuf (heap s ! st)) @ payload"
        "\<not> buffer.closed b'"
      by (elim exE conjE) (rule that)
    with assms(1) True rf opn show ?thesis
      by (intro exI[of _ b']) (simp add: handleData_def)
  qed
qed

lemma handleFIN_eq:
  "handleFIN s sid = (case map_of (streams s) sid of None \<Rightarrow> s
     | Some st \<Rightarrow> s\<lparr>heap := (heap s)[st := closed_stream (heap s ! st)]\<rparr>)"
  by (simp add: handleFIN_def close_stream_def closed_stream_def split: option.splits)

lemma set_update_cases:
  "(a, b) \<in> set (AList.update k v al) \<Longrightarrow> b = v \<or> (a, b) \<in> set al"
  by (induction al) (auto split: if_splits)

lemma session_inv_handleSYN:
  assumes "session_inv s"
  shows "session_inv (handleSYN s sid)"
proof (cases "map_of (streams s) sid")
  case (Some old)
  with assms show ?thesis by (simp add: handleSYN_eq)
next
  case None
  have h: "\<forall>st \<in> set (heap s @ [newStream sid]). buffer_inv (Stream.readBuf st)"
    using assms newBuffer_inv by (auto simp add: session_inv_def newStream_def)
  have k: "sid \<notin> fst ` set (streams s)"
    using None by (simp add: map_of_eq_None_iff)
  show ?thesis
  proof (cases "int (length (acceptCh s)) < AcceptBacklog (config s)")
    case True
    have "\<forall>r \<in> snd ` set (AList.update sid (length (heap s)) (streams s)). r < Suc (length (heap s))"
      using assms by (fastforce simp add: session_inv_def less_Suc_eq dest: set_update_cases)
    moreover have "\<forall>r \<in> set (acceptCh s). r < Suc (length (heap s))"
      using assms by (auto simp add: session_inv_def less_Suc_eq)
    ultimately show ?thesis
      using assms None True h
      by (simp add: handleSYN_eq Let_def session_inv_def distinct_update)
  next
    case False
    have "\<forall>r \<in> snd ` set (streams s). r < Suc (length (heap s))"
      using assms by (auto simp add: session_inv_def less_Suc_eq)
    moreover have "\<forall>r \<in> set (acceptCh s). r < Suc (length (heap s))"
      using assms by (auto simp add: session_inv_def less_Suc_eq)
    ultimately show ?thesis
      using assms None False h k
      by (simp add: handleSYN_eq Let_def session_inv_def delete_update_same)
  qed
qed

lemma OpenStreams_keys:
  "\<not> IsClosed s \<Longrightarrow>
     fst ` set (streams (OpenStreams n s))
       = fst ` set (streams s) \<union> (\<lambda>k. nextStreamID s + 2 * of_nat k) ` {0..<n}"
proof (induction n)
  case 0
  then show ?case by simp
next
  case (Suc n)
  have op: "\<not> IsClosed (OpenStreams n s)"
      "nextStreamID (OpenStreams n s) = nextStreamID s + 2 * of_nat n"
    using OpenStreams_open[OF Suc.prems, of n] by simp_all
  have "{0..<Suc n} = insert n {0..<n}" by auto
  then show ?case
    unfolding OpenStreams_snoc
    using Suc OpenStream_fields(4)[OF op(1)] op(2) by (simp add: dom_update)
qed

lemma full_session_unregistered: "map_of (streams full_session) 1 = None"
proof -
  have "fst ` set (streams full_session) = (\<lambda>k. 2 + 2 * of_nat k) ` {0..<16}"
    using OpenStreams_keys[of "client_on []" 16]
    by (simp add: full_session_def client_on_eq IsClosed_def)
  moreover have "(1::uint32) \<noteq> 2 + 2 * of_nat k" for k
  proof
    assume eq: "(1::uint32) = 2 + 2 * of_nat k"
    have "even (unat (2 + 2 * of_nat k :: uint32))" by (rule even_id)
    then have "even (unat (1::uint32))" by (simp only: eq[symmetric])
    then show False by simp
  qed
  ultimately have "1 \<notin> fst ` set (streams full_session)" by auto
  then show ?thesis by (simp add: map_of_eq_None_iff)
qed


section \<open>Frames arriving at the reader loop\<close>


lemma state_after_syn:
  "reader_step (server_on (createHeader 1 typeSYN 0 0 @ rest)) =
     Return Continue
       \<lparr>conn = newMockConn\<lparr>Conn.readBuf := rest\<rparr>, config = NewConfig,
        heap = [newStream 1], streams = [(1, 0)], nextStreamID = 1, acceptCh = [0],
        isRemoteClient = True, closed = False, readerShutdown = False,
        writeCh = [createHeader 1 typeACK 0 0], writerShutdown = False\<rparr>"
proof -
  have "reader_step (server_on (createHeader 1 typeSYN 0 0 @ rest)) =
      Return Continue (handleSYN ((server_on (createHeader 1 typeSYN 0 0 @ rest))
        \<lparr>conn := (conn (server_on (createHeader 1 typeSYN 0 0 @ rest)))\<lparr>Conn.readBuf := rest\<rparr>\<rparr>) 1)"
    by (subst reader_step_frame[where sid = 1 and t = typeSYN and fl = 0 and len = 0 and rest = rest])
       (simp_all add: server_on_eq newMockConn_def typeSYN_def typeData_def)
  then show ?thesis
    by (simp add: handleSYN_eq server_on_eq can_enqueue_def IsClosed_def NewConfig_def
        newMockConn_def Let_def)
qed

lemma after_syn_eq:
  "after_syn =
       \<lparr>conn = newMockConn\<lparr>Conn.readBuf := createHeader 1 typeData 0 4 @ [112, 105, 110, 103]
                                             @ createHeader 1 typeFIN 0 0\<rparr>,
        config = NewConfig,
        heap = [newStream 1], streams = [(1, 0)], nextStreamID = 1, acceptCh = [0],
        isRemoteClient = True, closed = False, readerShutdown = False,
        writeCh = [createHeader 1 typeACK 0 0], writerShutdown = False\<rparr>"
  by (simp add: after_syn_def wire_data_fin_def state_after_syn)

lemma after_fin_eq:
  "after_fin =
       \<lparr>conn = newMockConn\<lparr>Conn.readBuf := createHeader 1 typeData 0 4 @ [112, 105, 110, 103]\<rparr>,
        config = NewConfig,
        heap = [closed_stream (newStream 1)], streams = [(1, 0)], nextStreamID = 1,
        acceptCh = [0],
        isRemoteClient = True, closed = False, readerShutdown = False,
        writeCh = [createHeader 1 typeACK 0 0], writerShutdown = False\<rparr>"
proof -
  let ?rest = "createHeader 1 typeFIN 0 0 @ createHeader 1 typeData 0 4 @ [112, 105, 110, 103]"
  let ?s1 = "\<lparr>conn = newMockConn\<lparr>Conn.readBuf := ?rest\<rparr>, config = NewConfig,
        heap = [newStream 1], streams = [(1, 0)], nextStreamID = 1, acceptCh = [0],
        isRemoteClient = True, closed = False, readerShutdown = False,
        writeCh = [createHeader 1 typeACK 0 0], writerShutdown = False\<rparr>"
  have 1: "reader_step (server_on wire_fin_data) = Return Continue ?s1"
    unfolding wire_fin_data_def by (rule state_after_syn)
  have 2: "reader_step ?s1 = Return Continue (handleFIN (?s1\<lparr>conn := (conn ?s1)\<lparr>Conn.readBuf :=
              createHeader 1 typeData 0 4 @ [112, 105, 110, 103]\<rparr>\<rparr>) 1)"
    by (subst reader_step_frame[where sid = 1 and t = typeFIN and fl = 0 and len = 0
          and rest = "createHeader 1 typeData 0 4 @ [112, 105, 110, 103]"])
       (simp_all add: newMockConn_def typeSYN_def typeData_def typeFIN_def)
  have "reader_steps 2 (server_on wire_fin_data)
          = Return Continue (handleFIN (?s1\<lparr>conn := (conn ?s1)\<lparr>Conn.readBuf :=
              createHeader 1 typeData 0 4 @ [112, 105, 110, 103]\<rparr>\<rparr>) 1)"
    by (simp add: eval_nat_numeral 1 2)
  then show ?thesis
    by (simp add: after_fin_def handleFIN_eq newMockConn_def)
qed


lemma no_backlog_session_eq:
  "no_backlog_session =
     \<lparr>conn = newMockConn, config = NewConfig\<lparr>AcceptBacklog := 0\<rparr>, heap = [newStream 2],
      streams = [(2, 0)],
      nextStreamID = 4, acceptCh = [], isRemoteClient = False, closed = False,
      readerShutdown = False, writeCh = [createHeader 2 typeSYN 0 0], writerShutdown = False\<rparr>"
  by (simp add: no_backlog_session_def Client_def NewConfig_def OpenStream_open IsClosed_def
      Let_def)



lemma reader_step_DATA:
  assumes "\<not> readerShutdown s" "\<not> Conn.closed (conn s)" "readErr (conn s) = None"
    and "Conn.readBuf (conn s) = createHeader sid typeData fl len @ payload @ rest"
    and "length payload = unat len"
  shows
  "(map_of (streams s) sid = None \<longrightarrow>
       reader_step s = Return Continue (s\<lparr>conn := (conn s)\<lparr>Conn.readBuf := rest\<rparr>\<rparr>)
     \<and> reader_steps (Suc n) s = reader_steps n (s\<lparr>conn := (conn s)\<lparr>Conn.readBuf := rest\<rparr>\<rparr>))
 \<and> (map_of (streams s) sid = Some st \<and> st < length (heap s)
      \<and> buffer_inv (Stream.readBuf (heap s ! st)) \<longrightarrow>
      (\<exists>b'. reader_step s
               = Return Continue
                   (s\<lparr>conn := (conn s)\<lparr>Conn.readBuf := rest\<rparr>,
                      heap := (heap s)[st := (heap s ! st)\<lparr>Stream.readBuf := b'\<rparr>]\<rparr>)
           \<and> unread b' = unread (Stream.readBuf (heap s ! st))
                          @ (if buffer.closed (Stream.readBuf (heap s ! st)) then [] else payload)))"
proof -
  let ?s1 = "s\<lparr>conn := (conn s)\<lparr>Conn.readBuf := payload @ rest\<rparr>\<rparr>"
  have step: "reader_step s = and_then (handleData ?s1 sid fl len) (\<lambda>u s'. Return Continue s')"
    by (subst reader_step_frame[OF assms(1,2,3), where sid = sid and t = typeData and fl = fl
          and len = len and rest = "payload @ rest"])
       (simp_all add: assms(4))
  have c1: "\<not> Conn.closed (conn ?s1)" "readErr (conn ?s1) = None"
      "Conn.readBuf (conn ?s1) = payload @ rest"
    using assms(2,3) by simp_all
  have a: "map_of (streams s) sid = None \<longrightarrow>
       reader_step s = Return Continue (s\<lparr>conn := (conn s)\<lparr>Conn.readBuf := rest\<rparr>\<rparr>)
     \<and> reader_steps (Suc n) s = reader_steps n (s\<lparr>conn := (conn s)\<lparr>Conn.readBuf := rest\<rparr>\<rparr>)"
  proof
    assume "map_of (streams s) sid = None"
    then have "map_of (streams ?s1) sid = None" by simp
    from handleData_unknown[OF this c1 assms(5), of fl]
    have r: "reader_step s = Return Continue (s\<lparr>conn := (conn s)\<lparr>Conn.readBuf := rest\<rparr>\<rparr>)"
      by (simp add: step)
    then show "reader_step s = Return Continue (s\<lparr>conn := (conn s)\<lparr>Conn.readBuf := rest\<rparr>\<rparr>)
     \<and> reader_steps (Suc n) s = reader_steps n (s\<lparr>conn := (conn s)\<lparr>Conn.readBuf := rest\<rparr>\<rparr>)"
      by simp
  qed
  have b: "map_of (streams s) sid = Some st \<and> st < length (heap s)
      \<and> buffer_inv (Stream.readBuf (heap s ! st)) \<longrightarrow>
      (\<exists>b'. reader_step s
               = Return Continue
                   (s\<lparr>conn := (conn s)\<lparr>Conn.readBuf := rest\<rparr>,
                      heap := (heap s)[st := (heap s ! st)\<lparr>Stream.readBuf := b'\<rparr>]\<rparr>)
           \<and> unread b' = unread (Stream.readBuf (heap s ! st))
                          @ (if buffer.closed (Stream.readBuf (heap s ! st)) then [] else payload))"
  proof
    assume h: "map_of (streams s) sid = Some st \<and> st < length (heap s)
      \<and> buffer_inv (Stream.readBuf (heap s ! st))"
    then have h1: "map_of (streams ?s1) sid = Some st" "st < length (heap ?s1)"
        "buffer_inv (Stream.readBuf (heap ?s1 ! st))"
      by simp_all
    from handleData_registered[OF h1 c1 assms(5), of fl] obtain b' where
      b': "handleData ?s1 sid fl len
           = Return () (?s1\<lparr>conn := (conn ?s1)\<lparr>Conn.readBuf := rest\<rparr>,
                          heap := (heap ?s1)[st := (heap ?s1 ! st)\<lparr>Stream.readBuf := b'\<rparr>]\<rparr>)"
        "unread b' = unread (Stream.readBuf (heap ?s1 ! st))
                        @ (if buffer.closed (Stream.readBuf (heap ?s1 ! st)) then [] else payload)"
      by (elim exE conjE) (rule that)
    show "\<exists>b'. reader_step s
               = Return Continue
                   (s\<lparr>conn := (conn s)\<lparr>Conn.readBuf := rest\<rparr>,
                      heap := (heap s)[st := (heap s ! st)\<lparr>Stream.readBuf := b'\<rparr>]\<rparr>)
           \<and> unread b' = unread (Stream.readBuf (heap s ! st))
                          @ (if buffer.closed (Stream.readBuf (heap s ! st)) then [] else payload)"
      using b' by (intro exI[of _ b']) (simp add: step)
  qed
  show ?thesis using a b by (intro conjI)
qed

lemma wire_facts:
  "length [112, 105, 110, 103 :: byte] = unat (4 :: uint32)"
  by simp

lemma after_syn_facts:
  "\<not> readerShutdown after_syn" "\<not> Conn.closed (conn after_syn)" "readErr (conn after_syn) = None"
  "Conn.readBuf (conn after_syn)
     = createHeader 1 typeData 0 4 @ [112, 105, 110, 103] @ createHeader 1 typeFIN 0 0"
  "map_of (streams after_syn) 1 = Some 0" "0 < length (heap after_syn)"
  "buffer_inv (Stream.readBuf (heap after_syn ! 0))"
  "\<not> buffer.closed (Stream.readBuf (heap after_syn ! 0))"
  "unread (Stream.readBuf (heap after_syn ! 0)) = []"
  "map_of (streams after_syn) 7 = None"
  "heap after_syn = [newStream 1]"
  using newBuffer_inv
  by (simp_all add: after_syn_eq newMockConn_def newStream_def newBuffer_def unread_def)

lemma after_fin_facts:
  "\<not> readerShutdown after_fin" "\<not> Conn.closed (conn after_fin)" "readErr (conn after_fin) = None"
  "Conn.readBuf (conn after_fin) = createHeader 1 typeData 0 4 @ [112, 105, 110, 103] @ []"
  "map_of (streams after_fin) 1 = Some 0" "0 < length (heap after_fin)"
  "buffer_inv (Stream.readBuf (heap after_fin ! 0))"
  "buffer.closed (Stream.readBuf (heap after_fin ! 0))"
  "unread (Stream.readBuf (heap after_fin ! 0)) = []"
  using buffer_Close_inv[OF newBuffer_inv]
  by (simp_all add: after_fin_eq newMockConn_def closed_stream_facts newStream_def
      closed_stream_def)
     (simp_all add: buffer_Close_def newBuffer_def unread_def)


text \<open>
  Claim C6, as amended. A SYN for a registered ID changes nothing. A SYN for an
  unregistered ID creates a stream and passes one ACK frame for that ID to
  \<open>Session.write\<close>, whose result is ignored: the frame is enqueued when the session is
  open and the outbound channel has room, and no frame is enqueued otherwise. With room
  in the accept channel the stream is registered under the ID and appended to the accept
  channel. With a full accept channel the registration is undone, so that the registry
  and the accept channel are exactly as before, and no frame other than that ACK is
  enqueued. Well-formedness of the session is preserved in every case, and the iteration
  of the reader loop that reads the SYN header ends with the loop continuing.
\<close>

theorem handleSYN_contract:
  "(map_of (streams s) sid = Some old \<longrightarrow> handleSYN s sid = s)
 \<and> (map_of (streams s) sid = None \<longrightarrow>
      (\<exists>f. wire_frame typeACK 0 (unat sid) 0 [] f
         \<and> handleSYN s sid =
             (if int (length (acceptCh s)) < AcceptBacklog (config s)
              then s\<lparr>heap := heap s @ [newStream sid],
                     writeCh := writeCh s @ (if can_enqueue s then [f] else []),
                     streams := AList.update sid (length (heap s)) (streams s),
                     acceptCh := acceptCh s @ [length (heap s)]\<rparr>
              else s\<lparr>heap := heap s @ [newStream sid],
                     writeCh := writeCh s @ (if can_enqueue s then [f] else [])\<rparr>))
    \<and> (int (length (acceptCh s)) < AcceptBacklog (config s) \<longrightarrow>
          map_of (streams (handleSYN s sid)) = (map_of (streams s))(sid \<mapsto> length (heap s)))
    \<and> (\<not> int (length (acceptCh s)) < AcceptBacklog (config s) \<longrightarrow>
          streams (handleSYN s sid) = streams s \<and> acceptCh (handleSYN s sid) = acceptCh s))
 \<and> (session_inv s \<longrightarrow> session_inv (handleSYN s sid))
 \<and> (\<not> readerShutdown s \<and> \<not> Conn.closed (conn s) \<and> readErr (conn s) = None
      \<and> Conn.readBuf (conn s) = createHeader sid typeSYN fl len @ rest \<longrightarrow>
      reader_step s
        = Return Continue (handleSYN (s\<lparr>conn := (conn s)\<lparr>Conn.readBuf := rest\<rparr>\<rparr>) sid))"
proof -
  have a: "map_of (streams s) sid = Some old \<longrightarrow> handleSYN s sid = s"
    by (simp add: handleSYN_eq)
  have b: "map_of (streams s) sid = None \<longrightarrow>
      (\<exists>f. wire_frame typeACK 0 (unat sid) 0 [] f
         \<and> handleSYN s sid =
             (if int (length (acceptCh s)) < AcceptBacklog (config s)
              then s\<lparr>heap := heap s @ [newStream sid],
                     writeCh := writeCh s @ (if can_enqueue s then [f] else []),
                     streams := AList.update sid (length (heap s)) (streams s),
                     acceptCh := acceptCh s @ [length (heap s)]\<rparr>
              else s\<lparr>heap := heap s @ [newStream sid],
                     writeCh := writeCh s @ (if can_enqueue s then [f] else [])\<rparr>))
    \<and> (int (length (acceptCh s)) < AcceptBacklog (config s) \<longrightarrow>
          map_of (streams (handleSYN s sid)) = (map_of (streams s))(sid \<mapsto> length (heap s)))
    \<and> (\<not> int (length (acceptCh s)) < AcceptBacklog (config s) \<longrightarrow>
          streams (handleSYN s sid) = streams s \<and> acceptCh (handleSYN s sid) = acceptCh s)"
  proof
    assume n: "map_of (streams s) sid = None"
    then have k: "sid \<notin> fst ` set (streams s)" by (simp add: map_of_eq_None_iff)
    have 1: "\<exists>f. wire_frame typeACK 0 (unat sid) 0 [] f
         \<and> handleSYN s sid =
             (if int (length (acceptCh s)) < AcceptBacklog (config s)
              then s\<lparr>heap := heap s @ [newStream sid],
                     writeCh := writeCh s @ (if can_enqueue s then [f] else []),
                     streams := AList.update sid (length (heap s)) (streams s),
                     acceptCh := acceptCh s @ [length (heap s)]\<rparr>
              else s\<lparr>heap := heap s @ [newStream sid],
                     writeCh := writeCh s @ (if can_enqueue s then [f] else [])\<rparr>)"
      using n k wire_frame_header[of typeACK 0 sid 0]
      by (intro exI[of _ "createHeader sid typeACK 0 0"])
         (simp add: handleSYN_eq Let_def delete_update_same)
    have 2: "int (length (acceptCh s)) < AcceptBacklog (config s) \<longrightarrow>
          map_of (streams (handleSYN s sid)) = (map_of (streams s))(sid \<mapsto> length (heap s))"
      using n by (simp add: handleSYN_eq Let_def update_conv')
    have 3: "\<not> int (length (acceptCh s)) < AcceptBacklog (config s) \<longrightarrow>
          streams (handleSYN s sid) = streams s \<and> acceptCh (handleSYN s sid) = acceptCh s"
      using n k by (simp add: handleSYN_eq Let_def delete_update_same)
    show "(\<exists>f. wire_frame typeACK 0 (unat sid) 0 [] f
         \<and> handleSYN s sid =
             (if int (length (acceptCh s)) < AcceptBacklog (config s)
              then s\<lparr>heap := heap s @ [newStream sid],
                     writeCh := writeCh s @ (if can_enqueue s then [f] else []),
                     streams := AList.update sid (length (heap s)) (streams s),
                     acceptCh := acceptCh s @ [length (heap s)]\<rparr>
              else s\<lparr>heap := heap s @ [newStream sid],
                     writeCh := writeCh s @ (if can_enqueue s then [f] else [])\<rparr>))
    \<and> (int (length (acceptCh s)) < AcceptBacklog (config s) \<longrightarrow>
          map_of (streams (handleSYN s sid)) = (map_of (streams s))(sid \<mapsto> length (heap s)))
    \<and> (\<not> int (length (acceptCh s)) < AcceptBacklog (config s) \<longrightarrow>
          streams (handleSYN s sid) = streams s \<and> acceptCh (handleSYN s sid) = acceptCh s)"
      using 1 2 3 by (intro conjI)
  qed
  have c: "session_inv s \<longrightarrow> session_inv (handleSYN s sid)"
    using session_inv_handleSYN by blast
  have d: "\<not> readerShutdown s \<and> \<not> Conn.closed (conn s) \<and> readErr (conn s) = None
      \<and> Conn.readBuf (conn s) = createHeader sid typeSYN fl len @ rest \<longrightarrow>
      reader_step s
        = Return Continue (handleSYN (s\<lparr>conn := (conn s)\<lparr>Conn.readBuf := rest\<rparr>\<rparr>) sid)"
  proof
    assume "\<not> readerShutdown s \<and> \<not> Conn.closed (conn s) \<and> readErr (conn s) = None
      \<and> Conn.readBuf (conn s) = createHeader sid typeSYN fl len @ rest"
    then show "reader_step s
        = Return Continue (handleSYN (s\<lparr>conn := (conn s)\<lparr>Conn.readBuf := rest\<rparr>\<rparr>) sid)"
      by (subst reader_step_frame[where sid = sid and t = typeSYN and fl = fl and len = len
            and rest = rest])
         (simp_all add: typeSYN_def typeData_def)
  qed
  show ?thesis using a b c d by (intro conjI)
qed

theorem handleSYN_contract_witness:
  "map_of (streams example_session) 2 = Some 0
   \<and> handleSYN example_session 2 = example_session
   \<and> map_of (streams example_session) 1 = None
   \<and> int (length (acceptCh example_session)) < AcceptBacklog (config example_session)
   \<and> acceptCh (handleSYN example_session 1) = [1]
   \<and> map_of (streams (handleSYN example_session 1)) 1 = Some 1
   \<and> length (writeCh (handleSYN example_session 1)) = 2
   \<and> session_inv example_session \<and> session_inv (handleSYN example_session 1)
   \<and> map_of (streams no_backlog_session) 1 = None
   \<and> \<not> int (length (acceptCh no_backlog_session)) < AcceptBacklog (config no_backlog_session)
   \<and> streams (handleSYN no_backlog_session 1) = [(2, 0)]
   \<and> acceptCh (handleSYN no_backlog_session 1) = []
   \<and> length (heap (handleSYN no_backlog_session 1)) = 2
   \<and> length (writeCh (handleSYN no_backlog_session 1)) = 2
   \<and> \<not> readerShutdown (server_on wire_data_fin) \<and> \<not> Conn.closed (conn (server_on wire_data_fin))
   \<and> readErr (conn (server_on wire_data_fin)) = None
   \<and> reader_step (server_on wire_data_fin) = Return Continue after_syn"
proof -
  have e: "map_of (streams example_session) 2 = Some 0" "map_of (streams example_session) 1 = None"
      "int (length (acceptCh example_session)) < AcceptBacklog (config example_session)"
      "can_enqueue example_session" "length (heap example_session) = 1"
      "length (writeCh example_session) = 1" "acceptCh example_session = []"
    by (simp_all add: example_session_eq NewConfig_def can_enqueue_def IsClosed_def)
  have b: "map_of (streams no_backlog_session) 1 = None"
      "\<not> int (length (acceptCh no_backlog_session)) < AcceptBacklog (config no_backlog_session)"
      "can_enqueue no_backlog_session" "length (heap no_backlog_session) = 1"
      "length (writeCh no_backlog_session) = 1" "acceptCh no_backlog_session = []"
      "streams no_backlog_session = [(2, 0)]"
    by (simp_all add: no_backlog_session_eq can_enqueue_def IsClosed_def)
  have r: "\<not> readerShutdown (server_on wire_data_fin)"
      "\<not> Conn.closed (conn (server_on wire_data_fin))"
      "readErr (conn (server_on wire_data_fin)) = None"
      "Conn.readBuf (conn (server_on wire_data_fin))
         = createHeader 1 typeSYN 0 0 @ (createHeader 1 typeData 0 4 @ [112, 105, 110, 103]
                   @ createHeader 1 typeFIN 0 0)"
    by (simp_all add: server_on_eq newMockConn_def wire_data_fin_def)
  note t1 = handleSYN_contract[of example_session 2 0 0 0 "[]"]
  note t2 = handleSYN_contract[of example_session 1 0 0 0 "[]"]
  note t3 = handleSYN_contract[of no_backlog_session 1 0 0 0 "[]"]
  note t4 = handleSYN_contract[of "server_on wire_data_fin" 1 0 0 0
      "createHeader 1 typeData 0 4 @ [112, 105, 110, 103] @ createHeader 1 typeFIN 0 0"]
  have 1: "handleSYN example_session 2 = example_session" using t1 e(1) by simp
  have 2: "acceptCh (handleSYN example_session 1) = [1]"
      "map_of (streams (handleSYN example_session 1)) 1 = Some 1"
      "length (writeCh (handleSYN example_session 1)) = 2"
      "session_inv (handleSYN example_session 1)"
    using t2 e session_inv_example by auto
  have 3: "streams (handleSYN no_backlog_session 1) = [(2, 0)]"
      "acceptCh (handleSYN no_backlog_session 1) = []"
      "length (heap (handleSYN no_backlog_session 1)) = 2"
      "length (writeCh (handleSYN no_backlog_session 1)) = 2"
    using t3 b by auto
  have "reader_step (server_on wire_data_fin)
          = Return Continue (handleSYN ((server_on wire_data_fin)\<lparr>conn := (conn (server_on wire_data_fin))
              \<lparr>Conn.readBuf := createHeader 1 typeData 0 4 @ [112, 105, 110, 103]
                   @ createHeader 1 typeFIN 0 0\<rparr>\<rparr>) 1)"
    using t4 r by simp
  then have 4: "reader_step (server_on wire_data_fin) = Return Continue after_syn"
    by (simp add: after_syn_def eval_nat_numeral)
  show ?thesis
    using e(1,2,3) 1 2 session_inv_example b(1,2) 3 r(1,2,3) 4 by (intro conjI)
qed

text \<open>
  The claim as first stated (one ACK frame is enqueued for every new stream) fails when
  the outbound channel is full: the stream is registered and offered to the accept
  channel, and no ACK is enqueued.
\<close>

theorem handleSYN_no_ACK_counterexample:
  "map_of (streams full_session) 1 = None
   \<and> writeCh (handleSYN full_session 1) = writeCh full_session
   \<and> map_of (streams (handleSYN full_session 1)) 1 = Some 16
   \<and> acceptCh (handleSYN full_session 1) = [16]"
  using full_session_unregistered full_session_facts
  by (simp add: handleSYN_eq Let_def NewConfig_def update_conv')


text \<open>
  Claim C7, as amended. The reader finds the header of a DATA frame followed by the
  \<open>length\<close> payload bytes on a working connection. For an unregistered stream ID the
  iteration consumes exactly the header and the payload and changes nothing else, so the
  loop goes on with the next frame as if the DATA frame had not been there. For a
  registered stream the iteration consumes the same bytes and appends the payload to the
  unread bytes of the stream's buffer, unless that buffer is closed: then the payload is
  dropped.
\<close>

theorem DATA_frame_consumed:
  assumes "\<not> readerShutdown s" "\<not> Conn.closed (conn s)" "readErr (conn s) = None"
    and "Conn.readBuf (conn s) = createHeader sid typeData fl len @ payload @ rest"
    and "length payload = unat len"
  shows
  "(map_of (streams s) sid = None \<longrightarrow>
       reader_step s = Return Continue (s\<lparr>conn := (conn s)\<lparr>Conn.readBuf := rest\<rparr>\<rparr>)
     \<and> reader_steps (Suc n) s = reader_steps n (s\<lparr>conn := (conn s)\<lparr>Conn.readBuf := rest\<rparr>\<rparr>))
 \<and> (map_of (streams s) sid = Some st \<and> st < length (heap s)
      \<and> buffer_inv (Stream.readBuf (heap s ! st)) \<longrightarrow>
      (\<exists>b'. reader_step s
               = Return Continue
                   (s\<lparr>conn := (conn s)\<lparr>Conn.readBuf := rest\<rparr>,
                      heap := (heap s)[st := (heap s ! st)\<lparr>Stream.readBuf := b'\<rparr>]\<rparr>)
           \<and> unread b' = unread (Stream.readBuf (heap s ! st))
                          @ (if buffer.closed (Stream.readBuf (heap s ! st)) then [] else payload)))"
  by (rule reader_step_DATA[OF assms])

theorem DATA_frame_consumed_witness:
  "\<not> readerShutdown after_syn \<and> \<not> Conn.closed (conn after_syn) \<and> readErr (conn after_syn) = None
   \<and> Conn.readBuf (conn after_syn)
       = createHeader 1 typeData 0 4 @ [112, 105, 110, 103] @ createHeader 1 typeFIN 0 0
   \<and> length [112, 105, 110, 103 :: byte] = unat (4 :: uint32)
   \<and> map_of (streams after_syn) 1 = Some 0 \<and> 0 < length (heap after_syn)
   \<and> buffer_inv (Stream.readBuf (heap after_syn ! 0))
   \<and> (\<exists>b'. reader_step after_syn
              = Return Continue
                  (after_syn\<lparr>conn := (conn after_syn)\<lparr>Conn.readBuf := createHeader 1 typeFIN 0 0\<rparr>,
                     heap := (heap after_syn)[0 := (heap after_syn ! 0)\<lparr>Stream.readBuf := b'\<rparr>]\<rparr>)
          \<and> unread b' = [112, 105, 110, 103])
   \<and> map_of (streams (server_on (createHeader 7 typeData 0 4 @ [112, 105, 110, 103]
                                    @ createHeader 1 typeSYN 0 0))) 7 = None
   \<and> reader_step (server_on (createHeader 7 typeData 0 4 @ [112, 105, 110, 103]
                               @ createHeader 1 typeSYN 0 0))
       = Return Continue (server_on (createHeader 1 typeSYN 0 0))"
proof -
  let ?u = "server_on (createHeader 7 typeData 0 4 @ [112, 105, 110, 103]
                                    @ createHeader 1 typeSYN 0 0)"
  from DATA_frame_consumed[OF after_syn_facts(1,2,3,4) wire_facts, of 0 0]
    after_syn_facts(5,6,7,8,9)
  have 1: "\<exists>b'. reader_step after_syn
              = Return Continue
                  (after_syn\<lparr>conn := (conn after_syn)\<lparr>Conn.readBuf := createHeader 1 typeFIN 0 0\<rparr>,
                     heap := (heap after_syn)[0 := (heap after_syn ! 0)\<lparr>Stream.readBuf := b'\<rparr>]\<rparr>)
          \<and> unread b' = [112, 105, 110, 103]"
    by simp
  have u: "\<not> readerShutdown ?u" "\<not> Conn.closed (conn ?u)" "readErr (conn ?u) = None"
    "Conn.readBuf (conn ?u) = createHeader 7 typeData 0 4 @ [112, 105, 110, 103]
                                    @ createHeader 1 typeSYN 0 0"
    "map_of (streams ?u) 7 = None"
    by (simp_all add: server_on_eq newMockConn_def)
  from DATA_frame_consumed[OF u(1,2,3,4) wire_facts, of 0 0] u(5)
  have 2: "reader_step ?u = Return Continue (server_on (createHeader 1 typeSYN 0 0))"
    by (simp add: server_on_eq)
  show ?thesis
    using after_syn_facts(1,2,3,4,5,6,7) wire_facts 1 u(5) 2 by (intro conjI)
qed


text \<open>
  The claim as first stated (for a registered stream the payload is appended to the
  stream's buffer) fails for a stream whose buffer was closed by an earlier FIN: the
  stream is still registered, the four payload bytes are read off the connection, and the
  buffer holds nothing.
\<close>

theorem DATA_after_FIN_counterexample:
  "map_of (streams after_fin) 1 = Some 0
   \<and> Conn.readBuf (conn after_fin) = createHeader 1 typeData 0 4 @ [112, 105, 110, 103]
   \<and> reader_step after_fin = Return Continue after_fin_data
   \<and> Conn.readBuf (conn after_fin_data) = []
   \<and> unread (Stream.readBuf (heap after_fin_data ! 0)) = []"
proof -
  from reader_step_DATA[OF after_fin_facts(1,2,3,4) wire_facts, of 0 0] after_fin_facts(5,6,7,8,9)
  obtain b' where b': "reader_step after_fin
              = Return Continue
                  (after_fin\<lparr>conn := (conn after_fin)\<lparr>Conn.readBuf := []\<rparr>,
                     heap := (heap after_fin)[0 := (heap after_fin ! 0)\<lparr>Stream.readBuf := b'\<rparr>]\<rparr>)"
      "unread b' = []"
    by auto
  have e: "after_fin_data = after_fin\<lparr>conn := (conn after_fin)\<lparr>Conn.readBuf := []\<rparr>,
                     heap := (heap after_fin)[0 := (heap after_fin ! 0)\<lparr>Stream.readBuf := b'\<rparr>]\<rparr>"
    by (simp add: after_fin_data_def b'(1))
  have "Conn.readBuf (conn after_fin_data) = []"
      "unread (Stream.readBuf (heap after_fin_data ! 0)) = []"
    using after_fin_facts(6) b'(2) by (simp_all add: e)
  then show ?thesis
    using after_fin_facts(4,5) b'(1) e by simp
qed

section \<open>Reading from a stream\<close>

lemma Stream_Read_closed:
  "Stream.closed (heap s ! st) \<Longrightarrow> Stream_Read s st lp = Return (0, Some EOF, []) s"
  by (simp add: Stream_Read_def)

text \<open>
  Claim C3 does not hold for \<open>Stream.Read\<close>. A peer opens stream 1, sends four bytes
  and closes the stream. After the reader loop has handled the three frames the stream is
  marked closed while its buffer holds the four unread bytes, and \<open>Stream.Read\<close>
  returns \<open>io.EOF\<close> without delivering them: the test of \<open>s.closed\<close> comes before
  the call of \<open>buffer.Read\<close>, which would return the bytes first.
\<close>

theorem Stream_Read_after_FIN_loses_data:
  "reader_steps 3 (server_on wire_data_fin) = Return Continue after_data_fin
   \<and> map_of (streams after_data_fin) 1 = Some 0
   \<and> Stream.closed (heap after_data_fin ! 0)
   \<and> unread (Stream.readBuf (heap after_data_fin ! 0)) = [112, 105, 110, 103]
   \<and> Stream_Read after_data_fin 0 4 = Return (0, Some EOF, []) after_data_fin"
proof -
  have 1: "reader_step (server_on wire_data_fin) = Return Continue after_syn"
    by (simp add: wire_data_fin_def state_after_syn after_syn_eq)
  from reader_step_DATA[OF after_syn_facts(1,2,3,4) wire_facts, of 0 0] after_syn_facts(5,6,7,8,9)
  obtain b' where b': "reader_step after_syn
              = Return Continue
                  (after_syn\<lparr>conn := (conn after_syn)\<lparr>Conn.readBuf := createHeader 1 typeFIN 0 0\<rparr>,
                     heap := (heap after_syn)[0 := (heap after_syn ! 0)\<lparr>Stream.readBuf := b'\<rparr>]\<rparr>)"
      "unread b' = [112, 105, 110, 103]"
    by auto
  define s2 where "s2 = after_syn\<lparr>conn := (conn after_syn)\<lparr>Conn.readBuf := createHeader 1 typeFIN 0 0\<rparr>,
                     heap := [(newStream 1)\<lparr>Stream.readBuf := b'\<rparr>]\<rparr>"
  have 2: "reader_step after_syn = Return Continue s2"
    using b'(1) by (simp add: s2_def after_syn_facts(11))
  have f2: "\<not> readerShutdown s2" "\<not> Conn.closed (conn s2)" "readErr (conn s2) = None"
      "Conn.readBuf (conn s2) = createHeader 1 typeFIN 0 0 @ []"
      "map_of (streams s2) 1 = Some 0"
    using after_syn_facts(1,2,3,5) by (simp_all add: s2_def)
  define s3 where "s3 = s2\<lparr>conn := (conn s2)\<lparr>Conn.readBuf := []\<rparr>,
                          heap := [closed_stream ((newStream 1)\<lparr>Stream.readBuf := b'\<rparr>)]\<rparr>"
  have 3: "reader_step s2 = Return Continue s3"
    by (subst reader_step_frame[OF f2(1,2,3,4)])
       (simp add: typeFIN_def typeData_def typeSYN_def handleFIN_eq s3_def s2_def Let_def
          after_syn_facts(5))
  have "reader_steps 3 (server_on wire_data_fin) = Return Continue s3"
    by (simp add: eval_nat_numeral 1 2 3)
  then have r: "reader_steps 3 (server_on wire_data_fin) = Return Continue after_data_fin"
    by (simp add: after_data_fin_def)
  then have e: "after_data_fin = s3"
    using \<open>reader_steps 3 (server_on wire_data_fin) = Return Continue s3\<close> by simp
  have p: "map_of (streams after_data_fin) 1 = Some 0"
      "Stream.closed (heap after_data_fin ! 0)"
      "unread (Stream.readBuf (heap after_data_fin ! 0)) = [112, 105, 110, 103]"
    using f2(5) b'(2) by (simp_all add: e s3_def closed_stream_facts)
  show ?thesis
    using r p Stream_Read_closed[OF p(2), of 4] by (intro conjI)
qed


section \<open>Well-formedness is kept by every operation\<close>

text \<open>
  The sessions that \<open>Server\<close> and \<open>Client\<close> create are well-formed, and every
  operation of the model leaves a well-formed session well-formed, without a panic and
  without looping. The properties above that assume \<open>session_inv\<close> therefore hold
  in every state a session can reach.
\<close>


lemma after_and_then:
  "after c P \<Longrightarrow> (\<And>a s. P s \<Longrightarrow> after (f a s) P) \<Longrightarrow> after (and_then c f) P"
  by (cases c) simp_all

lemma session_inv_Server: "Server c cfg = Return e s \<Longrightarrow> session_inv s"
  by (auto simp add: Server_def session_inv_def Let_def split: if_splits)

lemma session_inv_Client: "Client c cfg = Return e s \<Longrightarrow> session_inv s"
  by (auto simp add: Client_def session_inv_def Let_def split: if_splits)

lemma session_inv_writeCh [simp]: "session_inv (s\<lparr>writeCh := w\<rparr>) = session_inv s"
  by (simp add: session_inv_def)

lemma session_inv_conn [simp]: "session_inv (s\<lparr>conn := c\<rparr>) = session_inv s"
  by (simp add: session_inv_def)

lemma session_inv_write: "session_inv s \<Longrightarrow> session_inv (snd (Session_write s d))"
  by (simp add: Session_write_def)

lemma session_inv_heap_update:
  assumes "session_inv s" "buffer_inv (Stream.readBuf x)"
  shows "session_inv (s\<lparr>heap := (heap s)[st := x]\<rparr>)"
proof -
  have "set ((heap s)[st := x]) \<subseteq> insert x (set (heap s))"
    by (rule set_update_subset_insert)
  then have "\<forall>y \<in> set ((heap s)[st := x]). buffer_inv (Stream.readBuf y)"
    using assms by (auto simp add: session_inv_def)
  then show ?thesis using assms(1) by (simp add: session_inv_def)
qed

lemma heap_buffer_inv:
  "session_inv s \<Longrightarrow> st < length (heap s) \<Longrightarrow> buffer_inv (Stream.readBuf (heap s ! st))"
  by (simp add: session_inv_def)

lemma registered_valid:
  "session_inv s \<Longrightarrow> map_of (streams s) sid = Some st \<Longrightarrow> st < length (heap s)"
  by (auto simp add: session_inv_def dest!: map_of_SomeD)

lemma session_inv_OpenStream:
  assumes "session_inv s"
  shows "session_inv (snd (OpenStream s))"
proof (cases "IsClosed s")
  case True
  with assms show ?thesis by (simp add: OpenStream_closed)
next
  case False
  have h: "\<forall>st \<in> set (heap s @ [newStream (nextStreamID s)]). buffer_inv (Stream.readBuf st)"
    using assms newBuffer_inv by (auto simp add: session_inv_def newStream_def)
  have r: "\<forall>r \<in> snd ` set (AList.update (nextStreamID s) (length (heap s)) (streams s)).
             r < Suc (length (heap s))"
    using assms by (fastforce simp add: session_inv_def less_Suc_eq dest: set_update_cases)
  have a: "\<forall>r \<in> set (acceptCh s). r < Suc (length (heap s))"
    using assms by (auto simp add: session_inv_def less_Suc_eq)
  show ?thesis
    using assms False h r a
    by (simp add: OpenStream_open Let_def session_inv_def distinct_update)
qed

lemma session_inv_AcceptStream: "session_inv s \<Longrightarrow> session_inv (snd (AcceptStream s))"
  by (auto simp add: AcceptStream_def session_inv_def split: list.splits)

lemma closed_stream_inv:
  "buffer_inv (Stream.readBuf st) \<Longrightarrow> buffer_inv (Stream.readBuf (closed_stream st))"
  using buffer_Close_inv[of "Stream.readBuf st"] by (simp add: closed_stream_def)

lemma fold_close_inv:
  "\<forall>st \<in> set h. buffer_inv (Stream.readBuf st) \<Longrightarrow>
     \<forall>st \<in> set (fold close_stream rs h). buffer_inv (Stream.readBuf st)"
proof -
  assume a: "\<forall>st \<in> set h. buffer_inv (Stream.readBuf st)"
  have "buffer_inv (Stream.readBuf (fold close_stream rs h ! i))"
    if "i < length h" for i
    using that a by (simp add: fold_close_nth closed_stream_inv)
  then show ?thesis
    by (auto simp add: in_set_conv_nth length_fold_close)
qed

lemma session_inv_Close: "session_inv s \<Longrightarrow> after (Session_Close s) session_inv"
proof (cases "Session.closed s")
  case True
  assume "session_inv s"
  with True show ?thesis by (simp add: Session_Close_closed)
next
  case False
  assume inv: "session_inv s"
  with False have sh: "\<not> readerShutdown s" "\<not> writerShutdown s"
    by (auto simp add: session_inv_def)
  show ?thesis
    using inv fold_close_inv[of "heap s" "map snd (streams s)"]
    by (simp add: Session_Close_open[OF False sh] session_inv_def length_fold_close)
qed

lemma session_inv_handleFIN: "session_inv s \<Longrightarrow> session_inv (handleFIN s sid)"
proof (cases "map_of (streams s) sid")
  case None
  assume "session_inv s"
  with None show ?thesis by (simp add: handleFIN_eq)
next
  case (Some st)
  assume inv: "session_inv s"
  have "st < length (heap s)" by (rule registered_valid[OF inv Some])
  then have "buffer_inv (Stream.readBuf (closed_stream (heap s ! st)))"
    using inv by (intro closed_stream_inv heap_buffer_inv)
  from session_inv_heap_update[OF inv this, of st] Some show ?thesis
    by (simp add: handleFIN_eq)
qed

lemma session_inv_handlePING: "session_inv s \<Longrightarrow> session_inv (handlePING s fl)"
  by (simp add: handlePING_eq)

lemma session_inv_handleData:
  assumes "session_inv s"
  shows "after (handleData s sid fl len) session_inv"
proof (cases "map_of (streams s) sid")
  case None
  with assms show ?thesis by (simp add: handleData_def)
next
  case (Some st)
  have v: "st < length (heap s)" by (rule registered_valid[OF assms Some])
  have b: "buffer_inv (Stream.readBuf (heap s ! st))" by (rule heap_buffer_inv[OF assms v])
  show ?thesis
  proof (cases "0 < len")
    case False
    with assms Some show ?thesis by (simp add: handleData_def)
  next
    case True
    obtain n err data c where rf: "ReadFull (conn s) (unat len) = ((n, err, data), c)"
      by (metis prod_cases3 surj_pair)
    show ?thesis
    proof (cases err)
      case (Some e)
      have "after (Session_Close (s\<lparr>conn := c\<rparr>)) session_inv"
        using assms by (intro session_inv_Close) simp
      then have "after (and_then (Session_Close (s\<lparr>conn := c\<rparr>)) (\<lambda>e s'. Return () s')) session_inv"
        by (rule after_and_then) simp
      with \<open>map_of (streams s) sid = Some st\<close> True rf Some show ?thesis
        by (simp add: handleData_def)
    next
      case None
      have w: "after (buffer_Write (Stream.readBuf (heap s ! st)) data) buffer_inv"
        by (rule buffer_Write_inv[OF b])
      show ?thesis
      proof (cases "buffer_Write (Stream.readBuf (heap s ! st)) data")
        case (Return r b')
        with w have "buffer_inv b'" by simp
        from session_inv_heap_update[OF assms, of "(heap s ! st)\<lparr>Stream.readBuf := b'\<rparr>" st] this
        have "session_inv (s\<lparr>heap := (heap s)[st := (heap s ! st)\<lparr>Stream.readBuf := b'\<rparr>]\<rparr>)"
          by simp
        with \<open>map_of (streams s) sid = Some st\<close> True rf None Return show ?thesis
          by (simp add: handleData_def session_inv_def)
      next
        case (Blocks b')
        with \<open>map_of (streams s) sid = Some st\<close> True rf None assms show ?thesis
          by (simp add: handleData_def)
      next
        case Panics
        with w show ?thesis by simp
      next
        case Diverges
        with w show ?thesis by simp
      qed
    qed
  qed
qed


lemma session_inv_reader_step:
  assumes "session_inv s"
  shows "after (reader_step s) session_inv"
proof (cases "readerShutdown s")
  case True
  with assms show ?thesis by (simp add: reader_step_def)
next
  case False
  obtain n err header c where rf: "ReadFull (conn s) headerSize = ((n, err, header), c)"
    by (metis prod_cases3 surj_pair)
  have i1: "session_inv (s\<lparr>conn := c\<rparr>)" using assms by simp
  show ?thesis
  proof (cases err)
    case (Some e)
    have "after (and_then (Session_Close (s\<lparr>conn := c\<rparr>)) (\<lambda>e s'. Return Exit s')) session_inv"
      using session_inv_Close[OF i1] by (rule after_and_then) simp
    with False rf Some show ?thesis by (simp add: reader_step_def)
  next
    case None
    have d: "after (and_then (handleData (s\<lparr>conn := c\<rparr>) sid fl len)
                      (\<lambda>u s'. Return Continue s')) session_inv" for sid fl len
      using session_inv_handleData[OF i1] by (rule after_and_then) simp
    show ?thesis
      using False rf None d i1 session_inv_handleSYN[OF i1] session_inv_handleFIN[OF i1]
        session_inv_handlePING[OF i1]
      by (simp add: reader_step_def Let_def handleACK_def)
  qed
qed

lemma session_inv_writer_step:
  assumes "session_inv s"
  shows "after (writer_step s) session_inv"
proof (cases "writerShutdown s")
  case True
  with assms show ?thesis by (simp add: writer_step_def)
next
  case False
  show ?thesis
  proof (cases "writeCh s")
    case Nil
    with False assms show ?thesis by (simp add: writer_step_def)
  next
    case (Cons data rest)
    obtain n err c where w: "Conn_Write (conn s) data = ((n, err), c)"
      by (metis surj_pair)
    have i1: "session_inv (s\<lparr>writeCh := rest, conn := c\<rparr>)" using assms by simp
    have "after (and_then (Session_Close (s\<lparr>writeCh := rest, conn := c\<rparr>))
                   (\<lambda>e s'. Return Exit s')) session_inv"
      using session_inv_Close[OF i1] by (rule after_and_then) simp
    with False Cons w i1 show ?thesis
      by (cases err) (simp_all add: writer_step_def)
  qed
qed

lemma session_inv_keepalive_step:
  assumes "session_inv s"
  shows "after (keepalive_step s) session_inv"
proof (cases "readerShutdown s")
  case True
  with assms show ?thesis by (simp add: keepalive_step_def)
next
  case False
  have "after (and_then (Session_Close s) (\<lambda>e s''. Return Exit s'')) session_inv"
    using session_inv_Close[OF assms] by (rule after_and_then) simp
  with False assms show ?thesis
    by (simp add: keepalive_step_def Session_write_def Let_def)
qed

lemma session_inv_Stream_Read:
  assumes "session_inv s" "st < length (heap s)"
  shows "after (Stream_Read s st lp) session_inv"
proof (cases "Stream.closed (heap s ! st)")
  case True
  with assms show ?thesis by (simp add: Stream_Read_def)
next
  case False
  have r: "after (buffer_Read (Stream.readBuf (heap s ! st)) lp) buffer_inv"
    by (rule buffer_Read_inv[OF heap_buffer_inv[OF assms]])
  show ?thesis
  proof (cases "buffer_Read (Stream.readBuf (heap s ! st)) lp")
    case (Return x b')
    with r have "buffer_inv b'" by simp
    from session_inv_heap_update[OF assms(1), of "(heap s ! st)\<lparr>Stream.readBuf := b'\<rparr>" st] this
    show ?thesis using False Return by (simp add: Stream_Read_def)
  next
    case (Blocks b')
    with r have "buffer_inv b'" by simp
    from session_inv_heap_update[OF assms(1), of "(heap s ! st)\<lparr>Stream.readBuf := b'\<rparr>" st] this
    show ?thesis using False Blocks by (simp add: Stream_Read_def)
  next
    case Panics
    with r show ?thesis by simp
  next
    case Diverges
    with r show ?thesis by simp
  qed
qed

lemma session_inv_Stream_Write: "session_inv s \<Longrightarrow> session_inv (snd (Stream_Write s st p))"
  by (simp add: Stream_Write_eq)

lemma session_inv_Stream_Close:
  assumes "session_inv s" "st < length (heap s)"
  shows "session_inv (snd (Stream_Close s st))"
proof -
  have "buffer_inv (Stream.readBuf ((heap s ! st)\<lparr>Stream.closed := True\<rparr>))"
    using heap_buffer_inv[OF assms] by simp
  from session_inv_heap_update[OF assms(1) this, of st] assms(1) show ?thesis
    by (simp add: Stream_Close_eq Let_def)
qed


end
